theory Spec2Isabelle
  imports Main
begin

section \<open>Data model of the build cache (daemon/internal/image/cache/cache.go)\<close>

text \<open>
  Identities and layer diff identities are Go string types (\<^verbatim>\<open>image.ID\<close>,
  \<^verbatim>\<open>layer.DiffID\<close>); the empty string is the zero value. A \<^verbatim>\<open>*time.Time\<close> is an
  optional instant, compared with \<^verbatim>\<open>Before\<close>.
\<close>

type_synonym ID = string
type_synonym DiffID = string
type_synonym Time = int

text \<open>
  Modelled from the spec: the declarations of \<^verbatim>\<open>image.History\<close>, \<^verbatim>\<open>image.RootFS\<close>,
  \<^verbatim>\<open>image.Image\<close>, \<^verbatim>\<open>container.Config\<close> and \<^verbatim>\<open>ocispec.Platform\<close> are not in the
  sources at hand. The records below hold the fields that cache.go reads or writes.
\<close>

record History =
  Created :: "Time option"
  CreatedBy :: string
  EmptyLayer :: bool

record Config =
  Cmd :: "string list"
  Env :: "string list"

record RootFS =
  DiffIDs :: "DiffID list"

record Platform =
  Architecture :: string
  OS :: string
  OSVersion :: string
  OSFeatures :: "string list"
  Variant :: string

record Image =
  ID :: ID
  DockerVersion :: string
  Config :: "Config option"
  ContainerConfig :: Config
  Architecture :: string
  OS :: string
  Author :: string
  Created :: "Time option"
  RootFS :: RootFS
  History :: "History list"
  OSFeatures :: "string list"
  OSVersion :: string
  Variant :: string

text \<open>
  Modelled from the spec: \<^verbatim>\<open>image.NewRootFS\<close>, \<^verbatim>\<open>RootFS.Append\<close> and
  \<^verbatim>\<open>Image.Platform\<close> belong to the image package. A fresh RootFS has no diff
  identities, \<^verbatim>\<open>Append\<close> adds one at the end, and the platform of an image is built
  from its OS, architecture and variant fields.
\<close>

definition NewRootFS :: RootFS where
  "NewRootFS = \<lparr>DiffIDs = []\<rparr>"

definition Append :: "RootFS \<Rightarrow> DiffID \<Rightarrow> RootFS" where
  "Append r l = r\<lparr>DiffIDs := DiffIDs r @ [l]\<rparr>"

definition Image_Platform :: "Image \<Rightarrow> Platform" where
  "Image_Platform img =
     \<lparr>Platform.Architecture = Image.Architecture img,
      Platform.OS = Image.OS img,
      Platform.OSVersion = Image.OSVersion img,
      Platform.OSFeatures = Image.OSFeatures img,
      Platform.Variant = Image.Variant img\<rparr>"

subsection \<open>Errors, panics and results\<close>

text \<open>
  A Go function returning \<^verbatim>\<open>(T, error)\<close> yields \<open>Ok\<close> with its value or \<open>Err\<close>; a
  run-time panic (nil dereference, index out of range) unwinds through every caller and
  is the third outcome. \<open>Wrapf\<close> is \<^verbatim>\<open>errors.Wrapf\<close> with the message of the call site.
  A helper that returns no error is \<open>panic + 'a\<close>, \<open>Inl\<close> the panic.
\<close>

datatype wrapMsg =
    UnableToFindImage string
  | FailedToSetParent ID ID
  | FailedToRestore string ID
  | FailedToCreateCacheImage

datatype error =
    StoreError string
  | UnableToFindImageQ ID
  | Wrapf wrapMsg error

datatype panic = NilPointerDereference | IndexOutOfRange

datatype 'a result = Ok 'a | Err error | Panic panic

subsection \<open>The store interface\<close>

text \<open>
  \<^verbatim>\<open>ImageCacheStore\<close> is an interface: its methods are fields over a hidden state
  \<open>'s\<close>. Lookups read the state; \<^verbatim>\<open>SetParent\<close> and \<^verbatim>\<open>Create\<close> may change it and may
  fail. Every call made through the interface is appended to \<open>calls\<close>, the way a mock
  of the interface records them. \<^verbatim>\<open>GetByRef\<close> is only used while seeding a cache.
\<close>

datatype StoreCall =
    CallGet ID
  | CallSetParent ID ID
  | CallGetParent ID
  | CallCreate "Image option" Image DiffID
  | CallIsBuiltLocally ID
  | CallChildren ID

record 's ImageCacheStore =
  Get :: "'s \<Rightarrow> ID \<Rightarrow> error + Image"
  SetParent :: "'s \<Rightarrow> ID \<Rightarrow> ID \<Rightarrow> error option \<times> 's"
  GetParent :: "'s \<Rightarrow> ID \<Rightarrow> error + ID"
  Create :: "'s \<Rightarrow> Image option \<Rightarrow> Image \<Rightarrow> DiffID \<Rightarrow> (error + ID) \<times> 's"
  IsBuiltLocally :: "'s \<Rightarrow> ID \<Rightarrow> error + bool"
  Children :: "'s \<Rightarrow> ID \<Rightarrow> ID list"
  state :: 's
  calls :: "StoreCall list"

definition store_Get :: "'s ImageCacheStore \<Rightarrow> ID \<Rightarrow> (error + Image) \<times> 's ImageCacheStore" where
  "store_Get st i = (Get st (state st) i, st\<lparr>calls := calls st @ [CallGet i]\<rparr>)"

definition store_GetParent :: "'s ImageCacheStore \<Rightarrow> ID \<Rightarrow> (error + ID) \<times> 's ImageCacheStore" where
  "store_GetParent st i = (GetParent st (state st) i, st\<lparr>calls := calls st @ [CallGetParent i]\<rparr>)"

definition store_IsBuiltLocally :: "'s ImageCacheStore \<Rightarrow> ID \<Rightarrow> (error + bool) \<times> 's ImageCacheStore" where
  "store_IsBuiltLocally st i =
     (IsBuiltLocally st (state st) i, st\<lparr>calls := calls st @ [CallIsBuiltLocally i]\<rparr>)"

definition store_Children :: "'s ImageCacheStore \<Rightarrow> ID \<Rightarrow> ID list \<times> 's ImageCacheStore" where
  "store_Children st i = (Children st (state st) i, st\<lparr>calls := calls st @ [CallChildren i]\<rparr>)"

definition store_SetParent :: "'s ImageCacheStore \<Rightarrow> ID \<Rightarrow> ID \<Rightarrow> error option \<times> 's ImageCacheStore" where
  "store_SetParent st t p =
     (fst (SetParent st (state st) t p),
      st\<lparr>state := snd (SetParent st (state st) t p), calls := calls st @ [CallSetParent t p]\<rparr>)"

definition store_Create ::
  "'s ImageCacheStore \<Rightarrow> Image option \<Rightarrow> Image \<Rightarrow> DiffID \<Rightarrow> (error + ID) \<times> 's ImageCacheStore" where
  "store_Create st p img l =
     (fst (Create st (state st) p img l),
      st\<lparr>state := snd (Create st (state st) p img l), calls := calls st @ [CallCreate p img l]\<rparr>)"

text \<open>
  The package functions \<^verbatim>\<open>compare\<close> and \<^verbatim>\<open>comparePlatform\<close> (compare.go) and the
  constant \<^verbatim>\<open>dockerversion.Version\<close> are not in the sources at hand: they are
  parameters of the model.
\<close>

record Deps =
  compare :: "Config \<Rightarrow> Config \<Rightarrow> bool"
  comparePlatform :: "Platform \<Rightarrow> Platform \<Rightarrow> bool"
  Version :: string

section \<open>Pure helpers of cache.go\<close>

text \<open>\<^verbatim>\<open>strings.Join\<close>.\<close>

fun Join :: "string list \<Rightarrow> string \<Rightarrow> string" where
  "Join [] sep = []"
| "Join [x] sep = x"
| "Join (x # y # ys) sep = x @ sep @ Join (y # ys) sep"

text \<open>\<^verbatim>\<open>isValidConfig\<close> (lines 192-195) dereferences \<^verbatim>\<open>cfg\<close>: a nil config panics.\<close>

definition isValidConfig :: "Config option \<Rightarrow> History \<Rightarrow> panic + bool" where
  "isValidConfig cfg h =
     (case cfg of
        None \<Rightarrow> Inl NilPointerDereference
      | Some c \<Rightarrow> Inr (Join (Cmd c) '' '' = CreatedBy h))"

text \<open>
  The loop of \<^verbatim>\<open>getLayerForHistoryIndex\<close> (lines 178-188) over the remaining history
  entries, \<open>i\<close> the position of the first of them: \<open>None\<close> is the early
  \<^verbatim>\<open>return ""\<close>, \<open>Some layerIndex\<close> the value of the counter at the \<^verbatim>\<open>break\<close> or
  when the range is exhausted.
\<close>

fun layerIndexLoop :: "History list \<Rightarrow> nat \<Rightarrow> nat \<Rightarrow> nat \<Rightarrow> nat option" where
  "layerIndexLoop [] i index layerIndex = Some layerIndex"
| "layerIndexLoop (h # hs) i index layerIndex =
     (if i = index then (if EmptyLayer h then None else Some layerIndex)
      else layerIndexLoop hs (Suc i) index (if \<not> EmptyLayer h then Suc layerIndex else layerIndex))"

text \<open>
  \<^verbatim>\<open>getLayerForHistoryIndex\<close> (lines 176-190). The final read
  \<^verbatim>\<open>image.RootFS.DiffIDs[layerIndex]\<close> is unchecked in the source and panics out of
  range.
\<close>

definition getLayerForHistoryIndex :: "Image \<Rightarrow> nat \<Rightarrow> panic + DiffID" where
  "getLayerForHistoryIndex img index =
     (case layerIndexLoop (History img) 0 index 0 of
        None \<Rightarrow> Inr ''''
      | Some layerIndex \<Rightarrow>
          if layerIndex < length (DiffIDs (RootFS img))
          then Inr (DiffIDs (RootFS img) ! layerIndex)
          else Inl IndexOutOfRange)"

text \<open>
  \<^verbatim>\<open>isValidParent\<close> (lines 197-222). The two range loops compare position by
  position; the length guards before them keep every read in range.
  \<^verbatim>\<open>reflect.DeepEqual\<close> on two history entries is equality of the records.
\<close>

definition isValidParent :: "Image \<Rightarrow> Image option \<Rightarrow> bool" where
  "isValidParent img parent =
     (if length (History img) = 0 then False
      else case parent of
        None \<Rightarrow> True
      | Some p \<Rightarrow>
          if length (History p) = 0 \<and> length (DiffIDs (RootFS p)) = 0 then True
          else if length (History p) \<ge> length (History img) then False
          else if length (DiffIDs (RootFS p)) > length (DiffIDs (RootFS img)) then False
          else if \<not> list_all (\<lambda>i. History p ! i = History img ! i) [0..<length (History p)]
          then False
          else if \<not> list_all (\<lambda>i. DiffIDs (RootFS p) ! i = DiffIDs (RootFS img) ! i)
                     [0..<length (DiffIDs (RootFS p))]
          then False
          else True)"

text \<open>\<^verbatim>\<open>getImageIDAndError\<close> (lines 224-229).\<close>

definition getImageIDAndError :: "Image option result \<Rightarrow> string result" where
  "getImageIDAndError r =
     (case r of
        Ok None \<Rightarrow> Ok ''''
      | Ok (Some img) \<Rightarrow> Ok (ID img)
      | Err e \<Rightarrow> Err e
      | Panic p \<Rightarrow> Panic p)"

section \<open>The local parent-chain cache\<close>

text \<open>
  The body of the loop of \<^verbatim>\<open>getLocalCachedImage\<close> (lines 241-274) over the
  remaining children, \<open>match\<close> the best candidate so far. A failed \<^verbatim>\<open>Get\<close> ends the
  call with an error; a failed \<^verbatim>\<open>IsBuiltLocally\<close> is logged and the child skipped.
  \<^verbatim>\<open>match.Created.Before\<close> dereferences the timestamp of the current match.
\<close>

fun childrenLoop ::
  "Deps \<Rightarrow> 's ImageCacheStore \<Rightarrow> ID list \<Rightarrow> Config \<Rightarrow> Platform \<Rightarrow> Image option
     \<Rightarrow> Image option result \<times> 's ImageCacheStore" where
  "childrenLoop d st [] config platform match = (Ok match, st)"
| "childrenLoop d st (i # ids) config platform match =
     (case store_Get st i of
        (Inl e, st1) \<Rightarrow> (Err (UnableToFindImageQ i), st1)
      | (Inr img, st1) \<Rightarrow>
          (case store_IsBuiltLocally st1 i of
             (Inl e, st2) \<Rightarrow> childrenLoop d st2 ids config platform match
           | (Inr builtLocally, st2) \<Rightarrow>
               if \<not> builtLocally then childrenLoop d st2 ids config platform match
               else if Platform.OS (Image_Platform img) = '''' \<and>
                       Platform.Architecture (Image_Platform img) = ''''
               then childrenLoop d st2 ids config platform match
               else if \<not> comparePlatform d platform (Image_Platform img)
               then childrenLoop d st2 ids config platform match
               else if compare d (ContainerConfig img) config
               then (case Image.Created img of
                       None \<Rightarrow> childrenLoop d st2 ids config platform match
                     | Some t \<Rightarrow>
                         (case match of
                            None \<Rightarrow> childrenLoop d st2 ids config platform (Some img)
                          | Some m \<Rightarrow>
                              (case Image.Created m of
                                 None \<Rightarrow> (Panic NilPointerDereference, st2)
                               | Some tm \<Rightarrow>
                                   if tm < t
                                   then childrenLoop d st2 ids config platform (Some img)
                                   else childrenLoop d st2 ids config platform match)))
               else childrenLoop d st2 ids config platform match))"

text \<open>\<^verbatim>\<open>getLocalCachedImage\<close> (lines 235-276).\<close>

definition getLocalCachedImage ::
  "Deps \<Rightarrow> 's ImageCacheStore \<Rightarrow> ID \<Rightarrow> Config option \<Rightarrow> Platform
     \<Rightarrow> Image option result \<times> 's ImageCacheStore" where
  "getLocalCachedImage d imageStore parentID config platform =
     (case config of
        None \<Rightarrow> (Ok None, imageStore)
      | Some c \<Rightarrow>
          (case store_Children imageStore parentID of
             (ids, st1) \<Rightarrow> childrenLoop d st1 ids c platform None))"

text \<open>\<^verbatim>\<open>LocalImageCache.GetCache\<close> (lines 61-63).\<close>

definition LocalImageCache_GetCache ::
  "Deps \<Rightarrow> 's ImageCacheStore \<Rightarrow> string \<Rightarrow> Config option \<Rightarrow> Platform
     \<Rightarrow> string result \<times> 's ImageCacheStore" where
  "LocalImageCache_GetCache d st imgID config platform =
     (case getLocalCachedImage d st imgID config platform of
        (r, st1) \<Rightarrow> (getImageIDAndError r, st1))"

section \<open>The history-based cache\<close>

text \<open>
  \<^verbatim>\<open>ImageCache\<close> (lines 66-70). Its \<^verbatim>\<open>localImageCache\<close> is built over the same
  store (lines 30-38), so the one \<open>store\<close> field serves both.
\<close>

record 's ImageCache =
  sources :: "Image list"
  store :: "'s ImageCacheStore"

text \<open>\<^verbatim>\<open>ImageCache.Populate\<close> (lines 73-75).\<close>

definition Populate :: "'s ImageCache \<Rightarrow> Image \<Rightarrow> 's ImageCache" where
  "Populate ic img = ic\<lparr>sources := sources ic @ [img]\<rparr>"

text \<open>
  \<^verbatim>\<open>ImageCache.restoreCachedImage\<close> (lines 127-163). The restored image is the
  value handed to the store's \<^verbatim>\<open>Create\<close>; fields the composite literal leaves out
  hold their zero values. \<^verbatim>\<open>target.History[lenHistory]\<close> panics out of range.
  Images are values here: \<open>parent\<close> stands for the parent as it was when the call began,
  also in the record of the \<^verbatim>\<open>Create\<close> call, whether or not \<^verbatim>\<open>rootFS.Append\<close> reaches
  the parent's own RootFS through a pointer.
\<close>

definition restoreCachedImage ::
  "Deps \<Rightarrow> 's ImageCacheStore \<Rightarrow> Image option \<Rightarrow> Image \<Rightarrow> Config option
     \<Rightarrow> ID result \<times> 's ImageCacheStore" where
  "restoreCachedImage d st parent target cfg =
     (let history0 = (case parent of None \<Rightarrow> [] | Some p \<Rightarrow> History p);
          rootFS0 = (case parent of None \<Rightarrow> NewRootFS | Some p \<Rightarrow> RootFS p);
          lenHistory = (case parent of None \<Rightarrow> 0 | Some p \<Rightarrow> length (History p))
      in if \<not> (lenHistory < length (History target)) then (Panic IndexOutOfRange, st)
         else
           let history = history0 @ [History target ! lenHistory] in
           case getLayerForHistoryIndex target lenHistory of
             Inl p \<Rightarrow> (Panic p, st)
           | Inr layer \<Rightarrow>
               let rootFS = (if layer \<noteq> '''' then Append rootFS0 layer else rootFS0);
                   restoredImg =
                     \<lparr>ID = '''',
                      DockerVersion = Version d,
                      Config = cfg,
                      ContainerConfig = \<lparr>Cmd = [], Env = []\<rparr>,
                      Architecture = Image.Architecture target,
                      OS = Image.OS target,
                      Author = Author target,
                      Created = History.Created (last history),
                      RootFS = rootFS,
                      History = history,
                      OSFeatures = Image.OSFeatures target,
                      OSVersion = Image.OSVersion target,
                      Variant = ''''\<rparr>
               in case store_Create st parent restoredImg layer of
                    (Inl e, st1) \<Rightarrow> (Err (Wrapf FailedToCreateCacheImage e), st1)
                  | (Inr imgID, st1) \<Rightarrow> (Ok imgID, st1))"

text \<open>
  \<^verbatim>\<open>ImageCache.isParent\<close> (lines 165-174) follows the store's parent links with no
  guard against a cycle: on a cycle that never meets \<^verbatim>\<open>parentID\<close> it does not
  return, which is the value \<open>None\<close>.
\<close>

partial_function (option) isParent ::
  "'s ImageCacheStore \<Rightarrow> ID \<Rightarrow> ID \<Rightarrow> (bool \<times> 's ImageCacheStore) option" where
  "isParent st imgID parentID =
     (case store_GetParent st imgID of
        (Inl e, st1) \<Rightarrow> Some (False, st1)
      | (Inr nextParent, st1) \<Rightarrow>
          if nextParent = parentID then Some (True, st1)
          else isParent st1 nextParent parentID)"

text \<open>The loop of lines 84-88: is the local hit an ancestor of some source?\<close>

fun verifyLoop ::
  "'s ImageCacheStore \<Rightarrow> Image list \<Rightarrow> ID \<Rightarrow> (bool \<times> 's ImageCacheStore) option" where
  "verifyLoop st [] imgID = Some (False, st)"
| "verifyLoop st (s # ss) imgID =
     (case isParent st (ID s) imgID of
        None \<Rightarrow> None
      | Some (found, st1) \<Rightarrow> if found then Some (True, st1) else verifyLoop st1 ss imgID)"

text \<open>
  The loop of lines 101-122 over the remaining sources. \<^verbatim>\<open>||\<close> evaluates
  \<^verbatim>\<open>isValidConfig\<close> only for a valid parent. The source list is replaced only on the
  way out of a successful restoration (line 120).
\<close>

fun sourcesLoop ::
  "Deps \<Rightarrow> 's ImageCache \<Rightarrow> string \<Rightarrow> Image option \<Rightarrow> nat \<Rightarrow> Config option \<Rightarrow> Image list
     \<Rightarrow> string result \<times> 's ImageCache" where
  "sourcesLoop d ic parentID parent lenHistory cfg [] = (Ok '''', ic)"
| "sourcesLoop d ic parentID parent lenHistory cfg (target # rest) =
     (if \<not> isValidParent target parent
      then sourcesLoop d ic parentID parent lenHistory cfg rest
      else if \<not> (lenHistory < length (History target)) then (Panic IndexOutOfRange, ic)
      else case isValidConfig cfg (History target ! lenHistory) of
        Inl p \<Rightarrow> (Panic p, ic)
      | Inr valid \<Rightarrow>
          if \<not> valid then sourcesLoop d ic parentID parent lenHistory cfg rest
          else if int (length (History target)) - 1 = int lenHistory
          then (case parent of
                  None \<Rightarrow> (Ok (ID target), ic)
                | Some p \<Rightarrow>
                    (case store_SetParent (store ic) (ID target) (ID p) of
                       (Some e, st1) \<Rightarrow>
                         (Err (Wrapf (FailedToSetParent (ID target) (ID p)) e), ic\<lparr>store := st1\<rparr>)
                     | (None, st1) \<Rightarrow> (Ok (ID target), ic\<lparr>store := st1\<rparr>)))
          else (case restoreCachedImage d (store ic) parent target cfg of
                  (Ok imgID, st1) \<Rightarrow> (Ok imgID, ic\<lparr>sources := [target], store := st1\<rparr>)
                | (Err e, st1) \<Rightarrow>
                    (Err (Wrapf (FailedToRestore parentID (ID target)) e), ic\<lparr>store := st1\<rparr>)
                | (Panic p, st1) \<Rightarrow> (Panic p, ic\<lparr>store := st1\<rparr>)))"

text \<open>
  \<^verbatim>\<open>ImageCache.GetCache\<close> (lines 78-125). The result is \<open>None\<close> when the ancestry
  check of line 85 does not return.
\<close>

definition ImageCache_GetCache ::
  "Deps \<Rightarrow> 's ImageCache \<Rightarrow> string \<Rightarrow> Config option \<Rightarrow> Platform
     \<Rightarrow> (string result \<times> 's ImageCache) option" where
  "ImageCache_GetCache d ic parentID cfg platform =
     (case LocalImageCache_GetCache d (store ic) parentID cfg platform of
        (Err e, st1) \<Rightarrow> Some (Err e, ic\<lparr>store := st1\<rparr>)
      | (Panic p, st1) \<Rightarrow> Some (Panic p, ic\<lparr>store := st1\<rparr>)
      | (Ok imgID, st1) \<Rightarrow>
          (case (if imgID \<noteq> '''' then verifyLoop st1 (sources ic) imgID else Some (False, st1)) of
             None \<Rightarrow> None
           | Some (verified, st2) \<Rightarrow>
               if verified then Some (Ok imgID, ic\<lparr>store := st2\<rparr>)
               else if parentID \<noteq> ''''
               then (case store_Get st2 parentID of
                       (Inl e, st3) \<Rightarrow>
                         Some (Err (Wrapf (UnableToFindImage parentID) e), ic\<lparr>store := st3\<rparr>)
                     | (Inr parent, st3) \<Rightarrow>
                         Some (sourcesLoop d (ic\<lparr>store := st3\<rparr>) parentID (Some parent)
                                 (length (History parent)) cfg (sources ic)))
               else Some (sourcesLoop d (ic\<lparr>store := st2\<rparr>) parentID None 0 cfg (sources ic))))"

section \<open>Predicates used to state the properties\<close>

text \<open>
  The filters of lines 242-268 for one child \<open>i\<close> of the parent: the image is the one
  the store returns for \<open>i\<close>, it was built locally, its platform is not the empty one,
  \<^verbatim>\<open>comparePlatform\<close> accepts it and \<^verbatim>\<open>compare\<close> accepts its container config.
\<close>

definition localCandidate ::
  "Deps \<Rightarrow> 's ImageCacheStore \<Rightarrow> Config \<Rightarrow> Platform \<Rightarrow> ID \<Rightarrow> Image \<Rightarrow> bool" where
  "localCandidate d st config platform i img =
     (Get st (state st) i = Inr img \<and>
      IsBuiltLocally st (state st) i = Inr True \<and>
      \<not> (Platform.OS (Image_Platform img) = '''' \<and> Platform.Architecture (Image_Platform img) = '''') \<and>
      comparePlatform d platform (Image_Platform img) \<and>
      compare d (ContainerConfig img) config)"

text \<open>
  \<open>r\<close> is the choice of the loop over \<open>ids\<close> started with \<open>match\<close>: it is \<open>match\<close> or a
  candidate among \<open>ids\<close>, it carries a timestamp, and no timed candidate among \<open>ids\<close>, nor
  \<open>match\<close>, is more recent.
\<close>

definition bestOf ::
  "Deps \<Rightarrow> 's ImageCacheStore \<Rightarrow> Config \<Rightarrow> Platform \<Rightarrow> ID list \<Rightarrow> Image option \<Rightarrow> Image option \<Rightarrow> bool" where
  "bestOf d st config platform ids match r =
     ((r = match \<or> (\<exists>i\<in>set ids. \<exists>img. localCandidate d st config platform i img \<and> r = Some img)) \<and>
      (\<forall>m. r = Some m \<longrightarrow> Image.Created m \<noteq> None) \<and>
      (\<forall>i\<in>set ids. \<forall>img t. localCandidate d st config platform i img \<and> Image.Created img = Some t
          \<longrightarrow> (\<exists>m tm. r = Some m \<and> Image.Created m = Some tm \<and> t \<le> tm)) \<and>
      (\<forall>m tm. match = Some m \<and> Image.Created m = Some tm
          \<longrightarrow> (\<exists>m' tm'. r = Some m' \<and> Image.Created m' = Some tm' \<and> tm \<le> tm')))"

text \<open>
  Kinds of store calls, and \<open>extendsCalls P st st'\<close>: the store \<open>st'\<close> is \<open>st\<close> after
  further calls, each of a kind \<open>P\<close>, that left the store's methods and state alone.
\<close>

fun isLookupCall :: "StoreCall \<Rightarrow> bool" where
  "isLookupCall (CallSetParent t p) = False"
| "isLookupCall (CallCreate p img l) = False"
| "isLookupCall c = True"

fun isGetParentCall :: "StoreCall \<Rightarrow> bool" where
  "isGetParentCall (CallGetParent i) = True"
| "isGetParentCall c = False"

fun isCreateCall :: "StoreCall \<Rightarrow> bool" where
  "isCreateCall (CallCreate p img l) = True"
| "isCreateCall c = False"

definition extendsCalls :: "(StoreCall \<Rightarrow> bool) \<Rightarrow> 's ImageCacheStore \<Rightarrow> 's ImageCacheStore \<Rightarrow> bool" where
  "extendsCalls P st st' = (\<exists>cs. st' = st\<lparr>calls := calls st @ cs\<rparr> \<and> list_all P cs)"

text \<open>
  The first \<open>n\<close> identities met by following the store's parent links from \<open>i\<close>, as far
  as \<^verbatim>\<open>GetParent\<close> answers: the identities \<^verbatim>\<open>isParent\<close> compares with, in order.
\<close>

fun ancestors :: "'s ImageCacheStore \<Rightarrow> nat \<Rightarrow> ID \<Rightarrow> ID list" where
  "ancestors st 0 i = []"
| "ancestors st (Suc n) i =
     (case GetParent st (state st) i of
        Inl e \<Rightarrow> []
      | Inr p \<Rightarrow> p # ancestors st n p)"

text \<open>
  The parent image \<^verbatim>\<open>GetCache\<close> fetches when \<^verbatim>\<open>parentID\<close> is not empty (lines 91-99),
  and the index \<^verbatim>\<open>lenHistory\<close> it matches at.
\<close>

definition GetCache_parent :: "'s ImageCache \<Rightarrow> string \<Rightarrow> Image option" where
  "GetCache_parent ic parentID =
     (if parentID = '''' then None
      else case Get (store ic) (state (store ic)) parentID of
             Inl e \<Rightarrow> None
           | Inr parent \<Rightarrow> Some parent)"

definition GetCache_lenHistory :: "Image option \<Rightarrow> nat" where
  "GetCache_lenHistory parent = (case parent of None \<Rightarrow> 0 | Some p \<Rightarrow> length (History p))"

section \<open>Concrete images and stores\<close>

text \<open>
  A three-step source image (two layers, the last step an empty layer), used to run the
  definitions on concrete inputs.
\<close>

definition h0 :: History where
  "h0 = \<lparr>History.Created = Some 1, CreatedBy = ''RUN a'', EmptyLayer = False\<rparr>"

definition h1 :: History where
  "h1 = \<lparr>History.Created = Some 2, CreatedBy = ''RUN b'', EmptyLayer = False\<rparr>"

definition h2 :: History where
  "h2 = \<lparr>History.Created = Some 3, CreatedBy = ''CMD c'', EmptyLayer = True\<rparr>"

definition exSource :: Image where
  "exSource =
     \<lparr>ID = ''src'',
      DockerVersion = ''1.0'',
      Config = Some \<lparr>Cmd = [''c''], Env = []\<rparr>,
      ContainerConfig = \<lparr>Cmd = [''CMD'', ''c''], Env = []\<rparr>,
      Architecture = ''amd64'',
      OS = ''linux'',
      Author = ''alice'',
      Created = Some 3,
      RootFS = \<lparr>DiffIDs = [''d0'', ''d1'']\<rparr>,
      History = [h0, h1, h2],
      OSFeatures = [],
      OSVersion = [],
      Variant = []\<rparr>"

text \<open>An image whose configuration records no history at all.\<close>

definition exNoHistory :: Image where
  "exNoHistory = exSource\<lparr>ID := ''nohist'', RootFS := \<lparr>DiffIDs = []\<rparr>, History := []\<rparr>"

text \<open>
  A store with three locally built children of \<^verbatim>\<open>base\<close> (the third without a creation
  time) and a legacy child whose platform fields are empty; \<^verbatim>\<open>old\<close> has the legacy
  child only. \<open>wildcardDeps\<close> lets \<^verbatim>\<open>comparePlatform\<close> accept every platform.
\<close>

definition exDeps :: Deps where
  "exDeps =
     \<lparr>compare = (\<lambda>a b. Cmd a = Cmd b),
      comparePlatform = (\<lambda>b i. Platform.OS b = Platform.OS i \<and> Platform.Architecture b = Platform.Architecture i),
      Version = ''29.0''\<rparr>"

definition wildcardDeps :: Deps where
  "wildcardDeps = exDeps\<lparr>comparePlatform := (\<lambda>b i. True)\<rparr>"

definition exConfig :: Config where
  "exConfig = \<lparr>Cmd = [''RUN'', ''b''], Env = []\<rparr>"

definition exPlatform :: Platform where
  "exPlatform = \<lparr>Platform.Architecture = ''amd64'', OS = ''linux'', OSVersion = [], OSFeatures = [], Variant = []\<rparr>"

definition exChild :: "ID \<Rightarrow> Time option \<Rightarrow> Image" where
  "exChild i t =
     \<lparr>ID = i,
      DockerVersion = ''1.0'',
      Config = None,
      ContainerConfig = exConfig,
      Architecture = ''amd64'',
      OS = ''linux'',
      Author = ''alice'',
      Created = t,
      RootFS = \<lparr>DiffIDs = [''d0'', ''d1'']\<rparr>,
      History = [h0, h1],
      OSFeatures = [],
      OSVersion = [],
      Variant = []\<rparr>"

definition exLegacy :: Image where
  "exLegacy = (exChild ''legacy'' (Some 9))\<lparr>Architecture := [], OS := []\<rparr>"

definition exBase :: Image where
  "exBase = (exChild ''base'' (Some 1))\<lparr>RootFS := \<lparr>DiffIDs = [''d0'']\<rparr>, History := [h0]\<rparr>"

definition exLocalStore :: "unit ImageCacheStore" where
  "exLocalStore =
     \<lparr>Get = (\<lambda>_ i. if i = ''c1'' then Inr (exChild ''c1'' (Some 5))
                    else if i = ''c2'' then Inr (exChild ''c2'' (Some 7))
                    else if i = ''c3'' then Inr (exChild ''c3'' None)
                    else if i = ''legacy'' then Inr exLegacy
                    else if i = ''base'' then Inr exBase
                    else Inl (StoreError ''no such image'')),
      SetParent = (\<lambda>s t p. (None, s)),
      GetParent = (\<lambda>_ i. if i = ''src'' then Inr ''c2''
                          else if i = ''c2'' then Inr ''base''
                          else Inl (StoreError ''no parent'')),
      Create = (\<lambda>s p img l. (Inr ''new'', s)),
      IsBuiltLocally = (\<lambda>_ i. Inr True),
      Children = (\<lambda>_ i. if i = ''base'' then [''c1'', ''c2'', ''c3'', ''legacy'']
                         else if i = ''old'' then [''legacy''] else []),
      state = (),
      calls = []\<rparr>"


text \<open>A source image unrelated to the others, and two more requested configs.\<close>

definition exOther :: Image where
  "exOther =
     exSource\<lparr>ID := ''other'', RootFS := \<lparr>DiffIDs = [''dx'']\<rparr>,
       History := [\<lparr>History.Created = Some 4, CreatedBy = ''RUN z'', EmptyLayer = False\<rparr>]\<rparr>"

definition exRootConfig :: Config where
  "exRootConfig = \<lparr>Cmd = [''RUN'', ''a''], Env = []\<rparr>"


text \<open>
  The image \<^verbatim>\<open>restoreCachedImage\<close> builds from \<open>exSource\<close> for the config \<open>cfg\<close>, with
  the given history and diff list.
\<close>

definition exRestored :: "Config \<Rightarrow> History list \<Rightarrow> DiffID list \<Rightarrow> Image" where
  "exRestored cfg hs ds =
     \<lparr>ID = [],
      DockerVersion = ''29.0'',
      Config = Some cfg,
      ContainerConfig = \<lparr>Cmd = [], Env = []\<rparr>,
      Architecture = ''amd64'',
      OS = ''linux'',
      Author = ''alice'',
      Created = History.Created (last hs),
      RootFS = \<lparr>DiffIDs = ds\<rparr>,
      History = hs,
      OSFeatures = [],
      OSVersion = [],
      Variant = []\<rparr>"

section \<open>Properties\<close>

subsection \<open>Layer lookup\<close>

lemma layerIndexLoop_at:
  "i \<le> index \<Longrightarrow> index - i < length hs \<Longrightarrow>
   layerIndexLoop hs i index layerIndex =
     (if EmptyLayer (hs ! (index - i)) then None
      else Some (layerIndex + length (filter (\<lambda>h. \<not> EmptyLayer h) (take (index - i) hs))))"
proof (induction hs arbitrary: i layerIndex)
  case Nil
  then show ?case by simp
next
  case (Cons h hs)
  show ?case
  proof (cases "i = index")
    case True
    then show ?thesis by simp
  next
    case False
    with Cons.prems have lt: "Suc i \<le> index" and len: "index - Suc i < length hs"
      by auto
    from False Cons.prems obtain k where k: "index - i = Suc k" and k': "index - Suc i = k"
      by (cases "index - i") auto
    show ?thesis
      using False Cons.IH[OF lt len] k k' by simp
  qed
qed

lemma count_take_less:
  assumes n: "n < length hs" and ne: "\<not> EmptyLayer (hs ! n)"
  shows "length (filter (\<lambda>h. \<not> EmptyLayer h) (take n hs))
           < length (filter (\<lambda>h. \<not> EmptyLayer h) hs)"
proof -
  have "hs = take n hs @ hs ! n # drop (Suc n) hs"
    using n by (simp add: id_take_nth_drop)
  then have "filter (\<lambda>h. \<not> EmptyLayer h) hs =
      filter (\<lambda>h. \<not> EmptyLayer h) (take n hs) @
      hs ! n # filter (\<lambda>h. \<not> EmptyLayer h) (drop (Suc n) hs)"
    using ne by (metis filter.simps(2) filter_append)
  then show ?thesis by simp
qed

text \<open>
  C7. For a target whose RootFS has as many diff identities as its History has
  non-empty-layer entries, and an index \<open>lenHistory\<close> inside the History: when the entry
  at \<open>lenHistory\<close> is not an empty layer, \<^verbatim>\<open>getLayerForHistoryIndex\<close> returns the diff
  identity at the number of non-empty-layer entries strictly before \<open>lenHistory\<close>, and
  that position is inside the diff list, so the read does not panic; when the entry is an
  empty layer it returns the empty diff identity whatever the diff list holds, an empty
  list included, so the list is not read.
\<close>

theorem getLayerForHistoryIndex_lockstep:
  assumes inv: "length (DiffIDs (RootFS target)) =
                  length (filter (\<lambda>h. \<not> EmptyLayer h) (History target))"
    and idx: "lenHistory < length (History target)"
  shows "(\<not> EmptyLayer (History target ! lenHistory) \<longrightarrow>
            length (filter (\<lambda>h. \<not> EmptyLayer h) (take lenHistory (History target)))
              < length (DiffIDs (RootFS target)) \<and>
            getLayerForHistoryIndex target lenHistory =
              Inr (DiffIDs (RootFS target) !
                     length (filter (\<lambda>h. \<not> EmptyLayer h) (take lenHistory (History target))))) \<and>
         (EmptyLayer (History target ! lenHistory) \<longrightarrow>
            (\<forall>r. getLayerForHistoryIndex (target\<lparr>RootFS := r\<rparr>) lenHistory = Inr ''''))"
  using assms count_take_less[of lenHistory "History target"]
  by (simp add: getLayerForHistoryIndex_def layerIndexLoop_at)

theorem getLayerForHistoryIndex_lockstep_witness:
  "getLayerForHistoryIndex exSource 1 = Inr ''d1'' \<and>
   (\<forall>r. getLayerForHistoryIndex (exSource\<lparr>RootFS := r\<rparr>) 2 = Inr '''')"
  using getLayerForHistoryIndex_lockstep[of exSource 1]
    getLayerForHistoryIndex_lockstep[of exSource 2]
  by (simp add: exSource_def h0_def h1_def h2_def)

subsection \<open>Valid extension of a parent\<close>

text \<open>
  C4 as stated fails: with a nil parent, \<^verbatim>\<open>isValidParent\<close> rejects a source whose
  History is empty (the guard of lines 198-200).
\<close>

theorem isValidParent_empty_history_counterexample:
  "\<not> isValidParent exNoHistory None"
  by (simp add: isValidParent_def exNoHistory_def)

text \<open>
  C4, amended. When the parent is nil, or has both an empty History and an empty RootFS
  diff list, \<^verbatim>\<open>isValidParent\<close> returns true exactly for the sources whose History is
  not empty.
\<close>

theorem isValidParent_empty_parent:
  assumes "parent = None \<or> (\<exists>p. parent = Some p \<and> History p = [] \<and> DiffIDs (RootFS p) = [])"
  shows "isValidParent img parent = (History img \<noteq> [])"
  using assms by (auto simp: isValidParent_def)

theorem isValidParent_empty_parent_witness:
  "isValidParent exSource None \<and> isValidParent exSource (Some exNoHistory)"
  using isValidParent_empty_parent[of None exSource]
    isValidParent_empty_parent[of "Some exNoHistory" exSource]
  by (simp add: exSource_def exNoHistory_def)

subsection \<open>The local parent-chain cache\<close>

text \<open>
  C10. With a nil config, \<^verbatim>\<open>LocalImageCache.GetCache\<close> returns the empty string and no
  error, and the store is handed back as it was: no call is added to its record of
  calls, for any parent identity and platform.
\<close>

theorem LocalImageCache_GetCache_nil_config:
  "LocalImageCache_GetCache d st parentID None platform = (Ok '''', st)"
  by (simp add: LocalImageCache_GetCache_def getLocalCachedImage_def getImageIDAndError_def)

lemma localCandidate_calls [simp]:
  "localCandidate d (st\<lparr>calls := cs\<rparr>) config platform i img = localCandidate d st config platform i img"
  by (simp add: localCandidate_def)

lemma childrenLoop_skip:
  assumes "Get st (state st) i = Inr img"
    and "\<not> (localCandidate d st config platform i img \<and> Image.Created img \<noteq> None)"
  shows "childrenLoop d st (i # ids) config platform match =
         childrenLoop d (st\<lparr>calls := calls st @ [CallGet i, CallIsBuiltLocally i]\<rparr>) ids config platform match"
  using assms
  by (auto simp: localCandidate_def store_Get_def store_IsBuiltLocally_def split: sum.splits)

lemma childrenLoop_take:
  assumes "localCandidate d st config platform i img" and "Image.Created img = Some t"
    and "match = None \<or> (\<exists>m tm. match = Some m \<and> Image.Created m = Some tm \<and> tm < t)"
  shows "childrenLoop d st (i # ids) config platform match =
         childrenLoop d (st\<lparr>calls := calls st @ [CallGet i, CallIsBuiltLocally i]\<rparr>) ids config platform (Some img)"
  using assms
  by (auto simp: localCandidate_def store_Get_def store_IsBuiltLocally_def split: sum.splits)

lemma childrenLoop_keep:
  assumes "localCandidate d st config platform i img" and "Image.Created img = Some t"
    and "match = Some m" and "Image.Created m = Some tm" and "\<not> tm < t"
  shows "childrenLoop d st (i # ids) config platform match =
         childrenLoop d (st\<lparr>calls := calls st @ [CallGet i, CallIsBuiltLocally i]\<rparr>) ids config platform match"
  using assms
  by (auto simp: localCandidate_def store_Get_def store_IsBuiltLocally_def split: sum.splits)



lemma bestOf_calls [simp]:
  "bestOf d (st\<lparr>calls := cs\<rparr>) config platform ids match r = bestOf d st config platform ids match r"
  by (simp add: bestOf_def)

lemma bestOf_Nil:
  "\<forall>m. match = Some m \<longrightarrow> Image.Created m \<noteq> None \<Longrightarrow> bestOf d st config platform [] match match"
  by (simp add: bestOf_def)

lemma bestOf_skip:
  assumes img: "Get st (state st) i = Inr img"
    and skip: "\<not> (localCandidate d st config platform i img \<and> Image.Created img \<noteq> None)"
    and b: "bestOf d st config platform ids match r"
  shows "bestOf d st config platform (i # ids) match r"
proof -
  have uniq: "\<And>img'. localCandidate d st config platform i img' \<Longrightarrow> img' = img"
    using img by (simp add: localCandidate_def)
  have no: "\<And>img' t. localCandidate d st config platform i img' \<Longrightarrow> Image.Created img' = Some t \<Longrightarrow> False"
    using uniq skip by force
  show ?thesis
    using b no unfolding bestOf_def by (simp (no_asm_simp)) blast
qed


lemma bestOf_take:
  assumes c: "localCandidate d st config platform i img" and t: "Image.Created img = Some t"
    and m: "match = None \<or> (\<exists>m tm. match = Some m \<and> Image.Created m = Some tm \<and> tm < t)"
    and b: "bestOf d st config platform ids (Some img) r"
  shows "bestOf d st config platform (i # ids) match r"
proof -
  have uniq: "\<And>img'. localCandidate d st config platform i img' \<Longrightarrow> img' = img"
    using c by (simp add: localCandidate_def)
  from b t obtain m' tm' where m': "r = Some m'" "Image.Created m' = Some tm'" "t \<le> tm'"
    unfolding bestOf_def by blast
  have 1: "r = match \<or> (\<exists>j\<in>set (i # ids). \<exists>img. localCandidate d st config platform j img \<and> r = Some img)"
    using b c unfolding bestOf_def by auto
  have 2: "\<forall>m. r = Some m \<longrightarrow> Image.Created m \<noteq> None"
    using b unfolding bestOf_def by blast
  have 3: "\<forall>j\<in>set (i # ids). \<forall>img t. localCandidate d st config platform j img \<and> Image.Created img = Some t
          \<longrightarrow> (\<exists>m tm. r = Some m \<and> Image.Created m = Some tm \<and> t \<le> tm)"
  proof (intro ballI allI impI)
    fix j img' t'
    assume j: "j \<in> set (i # ids)"
      and cj: "localCandidate d st config platform j img' \<and> Image.Created img' = Some t'"
    show "\<exists>m tm. r = Some m \<and> Image.Created m = Some tm \<and> t' \<le> tm"
    proof (cases "j = i")
      case True
      with cj uniq have "img' = img" by blast
      with cj t have "t' = t" by simp
      with m' show ?thesis by blast
    next
      case False
      with j have jin: "j \<in> set ids" by simp
      from b have "\<forall>i\<in>set ids. \<forall>img t. localCandidate d st config platform i img \<and> Image.Created img = Some t
          \<longrightarrow> (\<exists>m tm. r = Some m \<and> Image.Created m = Some tm \<and> t \<le> tm)"
        unfolding bestOf_def by blast
      from this[rule_format, OF jin cj] show ?thesis .
    qed
  qed
  have 4: "\<forall>m tm. match = Some m \<and> Image.Created m = Some tm
          \<longrightarrow> (\<exists>m' tm'. r = Some m' \<and> Image.Created m' = Some tm' \<and> tm \<le> tm')"
    using m m' by force
  show ?thesis unfolding bestOf_def using 1 2 3 4 by (intro conjI)
qed

lemma bestOf_keep:
  assumes c: "localCandidate d st config platform i img" and t: "Image.Created img = Some t"
    and m: "match = Some m" "Image.Created m = Some tm" "\<not> tm < t"
    and b: "bestOf d st config platform ids match r"
  shows "bestOf d st config platform (i # ids) match r"
proof -
  have uniq: "\<And>img'. localCandidate d st config platform i img' \<Longrightarrow> img' = img"
    using c by (simp add: localCandidate_def)
  from b m obtain m' tm' where m': "r = Some m'" "Image.Created m' = Some tm'" "tm \<le> tm'"
    unfolding bestOf_def by blast
  have 1: "r = match \<or> (\<exists>j\<in>set (i # ids). \<exists>img. localCandidate d st config platform j img \<and> r = Some img)"
    using b unfolding bestOf_def by auto
  have 2: "\<forall>m. r = Some m \<longrightarrow> Image.Created m \<noteq> None"
    using b unfolding bestOf_def by blast
  have 3: "\<forall>j\<in>set (i # ids). \<forall>img t. localCandidate d st config platform j img \<and> Image.Created img = Some t
          \<longrightarrow> (\<exists>m tm. r = Some m \<and> Image.Created m = Some tm \<and> t \<le> tm)"
  proof (intro ballI allI impI)
    fix j img' t'
    assume j: "j \<in> set (i # ids)"
      and cj: "localCandidate d st config platform j img' \<and> Image.Created img' = Some t'"
    show "\<exists>m tm. r = Some m \<and> Image.Created m = Some tm \<and> t' \<le> tm"
    proof (cases "j = i")
      case True
      with cj uniq have "img' = img" by blast
      with cj t have "t' = t" by simp
      with m' m(3) show ?thesis by force
    next
      case False
      with j have jin: "j \<in> set ids" by simp
      from b have "\<forall>i\<in>set ids. \<forall>img t. localCandidate d st config platform i img \<and> Image.Created img = Some t
          \<longrightarrow> (\<exists>m tm. r = Some m \<and> Image.Created m = Some tm \<and> t \<le> tm)"
        unfolding bestOf_def by blast
      from this[rule_format, OF jin cj] show ?thesis .
    qed
  qed
  have 4: "\<forall>m tm. match = Some m \<and> Image.Created m = Some tm
          \<longrightarrow> (\<exists>m' tm'. r = Some m' \<and> Image.Created m' = Some tm' \<and> tm \<le> tm')"
    using b unfolding bestOf_def by blast
  show ?thesis unfolding bestOf_def using 1 2 3 4 by (intro conjI)
qed

lemma childrenLoop_result:
  assumes "\<forall>i\<in>set ids. \<exists>img. Get st (state st) i = Inr img"
    and "\<forall>m. match = Some m \<longrightarrow> Image.Created m \<noteq> None"
  shows "\<exists>r st'. childrenLoop d st ids config platform match = (Ok r, st') \<and>
           bestOf d st config platform ids match r"
  using assms
proof (induction ids arbitrary: st match)
  case Nil
  then show ?case by (simp add: bestOf_Nil)
next
  case (Cons i ids)
  let ?st2 = "st\<lparr>calls := calls st @ [CallGet i, CallIsBuiltLocally i]\<rparr>"
  from Cons.prems(1) obtain img where img: "Get st (state st) i = Inr img" by auto
  have fetch: "\<forall>j\<in>set ids. \<exists>img. Get ?st2 (state ?st2) j = Inr img"
    using Cons.prems(1) by simp
  consider (skip) "\<not> (localCandidate d st config platform i img \<and> Image.Created img \<noteq> None)"
    | (take) t where "localCandidate d st config platform i img" "Image.Created img = Some t"
        "match = None \<or> (\<exists>m tm. match = Some m \<and> Image.Created m = Some tm \<and> tm < t)"
    | (keep) t m tm where "localCandidate d st config platform i img" "Image.Created img = Some t"
        "match = Some m" "Image.Created m = Some tm" "\<not> tm < t"
  proof (cases "localCandidate d st config platform i img \<and> Image.Created img \<noteq> None")
    case False
    then show ?thesis using skip by blast
  next
    case True
    then obtain t where t: "Image.Created img = Some t" by auto
    from True have c: "localCandidate d st config platform i img" by simp
    show ?thesis
    proof (cases match)
      case None
      then show ?thesis using take[OF c t] by blast
    next
      case (Some m)
      with Cons.prems(2) obtain tm where tm: "Image.Created m = Some tm" by auto
      show ?thesis
      proof (cases "tm < t")
        case True
        then show ?thesis using take[OF c t] Some tm by blast
      next
        case False
        then show ?thesis using keep[OF c t Some tm] by blast
      qed
    qed
  qed
  then show ?case
  proof cases
    case skip
    from Cons.IH[OF fetch Cons.prems(2)] obtain r st' where
      r: "childrenLoop d ?st2 ids config platform match = (Ok r, st')"
      and b: "bestOf d st config platform ids match r"
      by auto
    have eq: "childrenLoop d st (i # ids) config platform match = (Ok r, st')"
      using childrenLoop_skip[OF img skip] r by simp
    show ?thesis using eq bestOf_skip[OF img skip b] by blast
  next
    case take
    have inv: "\<forall>m. Some img = Some m \<longrightarrow> Image.Created m \<noteq> None"
      using take(2) by simp
    from Cons.IH[OF fetch inv] obtain r st' where
      r: "childrenLoop d ?st2 ids config platform (Some img) = (Ok r, st')"
      and b: "bestOf d st config platform ids (Some img) r"
      by auto
    have eq: "childrenLoop d st (i # ids) config platform match = (Ok r, st')"
      using childrenLoop_take[OF take] r by simp
    show ?thesis using eq bestOf_take[OF take b] by blast
  next
    case keep
    from Cons.IH[OF fetch Cons.prems(2)] obtain r st' where
      r: "childrenLoop d ?st2 ids config platform match = (Ok r, st')"
      and b: "bestOf d st config platform ids match r"
      by auto
    have eq: "childrenLoop d st (i # ids) config platform match = (Ok r, st')"
      using childrenLoop_keep[OF keep] r by simp
    show ?thesis using eq bestOf_keep[OF keep b] by blast
  qed
qed

lemma childrenLoop_panic:
  assumes "localCandidate d st config platform i img" and "Image.Created img = Some t"
    and "match = Some m" and "Image.Created m = None"
  shows "fst (childrenLoop d st (i # ids) config platform match) = Panic NilPointerDereference"
  using assms
  by (auto simp: localCandidate_def store_Get_def store_IsBuiltLocally_def split: sum.splits)

lemma childrenLoop_unfetched:
  assumes "Get st (state st) i = Inl e"
  shows "fst (childrenLoop d st (i # ids) config platform match) = Err (UnableToFindImageQ i)"
  using assms by (simp add: store_Get_def)

lemma childrenLoop_sound:
  "childrenLoop d st ids config platform match = (Ok (Some r), st') \<Longrightarrow>
   match = Some r \<or> (\<exists>i\<in>set ids. localCandidate d st config platform i r)"
proof (induction ids arbitrary: st match)
  case Nil
  then show ?case by simp
next
  case (Cons i ids)
  let ?st2 = "st\<lparr>calls := calls st @ [CallGet i, CallIsBuiltLocally i]\<rparr>"
  show ?case
  proof (cases "Get st (state st) i")
    case (Inl e)
    from childrenLoop_unfetched[OF Inl, of d ids config platform match] Cons.prems
    show ?thesis by simp
  next
    case (Inr img)
    show ?thesis
    proof (cases "localCandidate d st config platform i img \<and> Image.Created img \<noteq> None")
      case False
      from childrenLoop_skip[OF Inr False] Cons.prems
      have "childrenLoop d ?st2 ids config platform match = (Ok (Some r), st')" by simp
      from Cons.IH[OF this] show ?thesis by auto
    next
      case True
      then obtain t where c: "localCandidate d st config platform i img"
        and t: "Image.Created img = Some t" by auto
      consider (take) "match = None \<or> (\<exists>m tm. match = Some m \<and> Image.Created m = Some tm \<and> tm < t)"
        | (keep) m tm where "match = Some m" "Image.Created m = Some tm" "\<not> tm < t"
        | (panic) m where "match = Some m" "Image.Created m = None"
        by (cases match) force+
      then show ?thesis
      proof cases
        case take
        from childrenLoop_take[OF c t take] Cons.prems
        have "childrenLoop d ?st2 ids config platform (Some img) = (Ok (Some r), st')" by simp
        from Cons.IH[OF this] c show ?thesis by auto
      next
        case keep
        from childrenLoop_keep[OF c t keep] Cons.prems
        have "childrenLoop d ?st2 ids config platform match = (Ok (Some r), st')" by simp
        from Cons.IH[OF this] show ?thesis by auto
      next
        case panic
        from childrenLoop_panic[OF c t panic, of ids] Cons.prems show ?thesis by simp
      qed
    qed
  qed
qed

text \<open>
  C5 as stated fails: a locally built child with a matching config whose OS and
  Architecture are both empty is skipped even when \<^verbatim>\<open>comparePlatform\<close> accepts every
  platform. Alone under \<^verbatim>\<open>old\<close> it gives a miss; under \<^verbatim>\<open>base\<close>, where it is the
  most recent child, the older \<^verbatim>\<open>c2\<close> is returned instead.
\<close>

theorem getLocalCachedImage_legacy_platform_counterexample:
  "fst (LocalImageCache_GetCache wildcardDeps exLocalStore ''old'' (Some exConfig) exPlatform) = Ok [] \<and>
   fst (LocalImageCache_GetCache wildcardDeps exLocalStore ''base'' (Some exConfig) exPlatform) = Ok ''c2''"
  by (simp add: LocalImageCache_GetCache_def getLocalCachedImage_def getImageIDAndError_def
      store_Children_def store_Get_def store_IsBuiltLocally_def exLocalStore_def exDeps_def
      wildcardDeps_def exConfig_def exPlatform_def exChild_def exLegacy_def Image_Platform_def)

text \<open>
  C5, amended. In the local parent-chain cache a child image whose stored platform is
  empty (OS and Architecture both empty) is discarded: whatever \<^verbatim>\<open>comparePlatform\<close>
  answers, the image \<^verbatim>\<open>getLocalCachedImage\<close> returns never has an empty platform.
\<close>

theorem getLocalCachedImage_discards_empty_platform:
  assumes "fst (getLocalCachedImage d st parentID config platform) = Ok (Some img)"
  shows "\<not> (Platform.OS (Image_Platform img) = '''' \<and>
            Platform.Architecture (Image_Platform img) = '''')"
proof -
  from assms obtain c where c: "config = Some c"
    by (cases config) (simp_all add: getLocalCachedImage_def)
  let ?st1 = "st\<lparr>calls := calls st @ [CallChildren parentID]\<rparr>"
  from assms c obtain st' where
    "childrenLoop d ?st1 (Children st (state st) parentID) c platform None = (Ok (Some img), st')"
    by (cases "childrenLoop d ?st1 (Children st (state st) parentID) c platform None")
       (simp add: getLocalCachedImage_def store_Children_def)
  from childrenLoop_sound[OF this] show ?thesis
    by (auto simp: localCandidate_def)
qed

theorem getLocalCachedImage_discards_empty_platform_witness:
  "fst (getLocalCachedImage exDeps exLocalStore ''base'' (Some exConfig) exPlatform) =
     Ok (Some (exChild ''c2'' (Some 7))) \<and>
   \<not> (Platform.OS (Image_Platform (exChild ''c2'' (Some 7))) = [] \<and>
      Platform.Architecture (Image_Platform (exChild ''c2'' (Some 7))) = [])"
proof -
  have h: "fst (getLocalCachedImage exDeps exLocalStore ''base'' (Some exConfig) exPlatform) =
             Ok (Some (exChild ''c2'' (Some 7)))"
    by (simp add: getLocalCachedImage_def store_Children_def store_Get_def
        store_IsBuiltLocally_def exLocalStore_def exDeps_def exConfig_def exPlatform_def
        exChild_def exLegacy_def Image_Platform_def)
  from getLocalCachedImage_discards_empty_platform[OF h] h show ?thesis by simp
qed

text \<open>
  C6. For a non-nil config, when every child the store lists for the parent can be
  fetched (a failed \<^verbatim>\<open>Get\<close> ends the call with an error, lines 243-245),
  \<^verbatim>\<open>LocalImageCache.GetCache\<close> returns no error, and its result is: the empty string
  when no child passes the filters with a creation time; otherwise the identity of a
  child that passes the filters and whose creation time is the most recent among the
  children that pass them with a creation time.
\<close>

theorem LocalImageCache_GetCache_most_recent:
  assumes fetch: "\<forall>i\<in>set (Children st (state st) parentID). \<exists>img. Get st (state st) i = Inr img"
  shows "\<exists>r st'. LocalImageCache_GetCache d st parentID (Some config) platform = (Ok r, st') \<and>
      ((r = '''' \<and>
        (\<forall>i\<in>set (Children st (state st) parentID). \<forall>img.
            localCandidate d st config platform i img \<longrightarrow> Image.Created img = None)) \<or>
       (\<exists>i\<in>set (Children st (state st) parentID). \<exists>img t.
            localCandidate d st config platform i img \<and> Image.Created img = Some t \<and> r = ID img \<and>
            (\<forall>j\<in>set (Children st (state st) parentID). \<forall>img' t'.
                localCandidate d st config platform j img' \<and> Image.Created img' = Some t' \<longrightarrow> t' \<le> t)))"
proof -
  let ?st1 = "st\<lparr>calls := calls st @ [CallChildren parentID]\<rparr>"
  let ?ids = "Children st (state st) parentID"
  have f1: "\<forall>i\<in>set ?ids. \<exists>img. Get ?st1 (state ?st1) i = Inr img"
    using fetch by simp
  have "\<forall>m. (None::Image option) = Some m \<longrightarrow> Image.Created m \<noteq> None" by simp
  from childrenLoop_result[OF f1 this, of d config platform] obtain r0 st' where
    r0: "childrenLoop d ?st1 ?ids config platform None = (Ok r0, st')"
    and best: "bestOf d st config platform ?ids None r0"
    by auto
  have eq: "LocalImageCache_GetCache d st parentID (Some config) platform = (getImageIDAndError (Ok r0), st')"
    using r0 by (simp add: LocalImageCache_GetCache_def getLocalCachedImage_def store_Children_def)
  show ?thesis
  proof (cases r0)
    case None
    with best have "\<forall>i\<in>set ?ids. \<forall>img. localCandidate d st config platform i img \<longrightarrow> Image.Created img = None"
      unfolding bestOf_def by (metis option.distinct(1) option.exhaust)
    with None eq show ?thesis by (simp add: getImageIDAndError_def)
  next
    case (Some m)
    with best obtain i where i: "i \<in> set ?ids" "localCandidate d st config platform i m"
      unfolding bestOf_def by auto
    from Some best obtain t where t: "Image.Created m = Some t"
      unfolding bestOf_def by auto
    have mx: "\<forall>j\<in>set ?ids. \<forall>img' t'.
                localCandidate d st config platform j img' \<and> Image.Created img' = Some t' \<longrightarrow> t' \<le> t"
    proof (intro ballI allI impI)
      fix j img' t'
      assume j: "j \<in> set ?ids" and cj: "localCandidate d st config platform j img' \<and> Image.Created img' = Some t'"
      from best have "\<forall>i\<in>set ?ids. \<forall>img t. localCandidate d st config platform i img \<and> Image.Created img = Some t
          \<longrightarrow> (\<exists>m tm. r0 = Some m \<and> Image.Created m = Some tm \<and> t \<le> tm)"
        unfolding bestOf_def by blast
      from this[rule_format, OF j cj] Some t show "t' \<le> t" by auto
    qed
    have "LocalImageCache_GetCache d st parentID (Some config) platform = (Ok (ID m), st')"
      using eq Some by (simp add: getImageIDAndError_def)
    with i t mx show ?thesis by blast
  qed
qed

theorem LocalImageCache_GetCache_most_recent_witness:
  "fst (LocalImageCache_GetCache exDeps exLocalStore ''base'' (Some exConfig) exPlatform) = Ok ''c2''"
proof -
  have h: "\<forall>i\<in>set (Children exLocalStore (state exLocalStore) ''base'').
             \<exists>img. Get exLocalStore (state exLocalStore) i = Inr img"
    by (simp add: exLocalStore_def)
  have e: "fst (LocalImageCache_GetCache exDeps exLocalStore ''base'' (Some exConfig) exPlatform) = Ok ''c2''"
    by (simp add: LocalImageCache_GetCache_def getLocalCachedImage_def getImageIDAndError_def
        store_Children_def store_Get_def store_IsBuiltLocally_def exLocalStore_def exDeps_def
        exConfig_def exPlatform_def exChild_def exLegacy_def Image_Platform_def)
  from LocalImageCache_GetCache_most_recent[OF h, of exDeps exConfig exPlatform] e
  show ?thesis by simp
qed

subsection \<open>Restoration\<close>

lemma getLayerForHistoryIndex_eq:
  assumes "index < length (History img)"
  shows "getLayerForHistoryIndex img index =
     (if EmptyLayer (History img ! index) then Inr ''''
      else if length (filter (\<lambda>h. \<not> EmptyLayer h) (take index (History img))) < length (DiffIDs (RootFS img))
      then Inr (DiffIDs (RootFS img) ! length (filter (\<lambda>h. \<not> EmptyLayer h) (take index (History img))))
      else Inl IndexOutOfRange)"
  using assms by (simp add: getLayerForHistoryIndex_def layerIndexLoop_at)

lemma isValidParent_index:
  "isValidParent target parent \<Longrightarrow>
   (case parent of None \<Rightarrow> 0 | Some p \<Rightarrow> length (History p)) < length (History target)"
  by (auto simp: isValidParent_def split: option.splits if_splits)

text \<open>
  C1. For a target that is a valid extension of the parent (as at every match of
  \<^verbatim>\<open>GetCache\<close>), whose RootFS has as many diff identities as its History has
  non-empty-layer entries, none of them the empty string: \<^verbatim>\<open>restoreCachedImage\<close> hands
  one image to the store's \<^verbatim>\<open>Create\<close>, together with the parent and the located layer,
  and returns the identity the store answers (or its error, wrapped). That image has the
  parent's History followed by the single entry \<^verbatim>\<open>target.History[lenHistory]\<close> (only that
  entry for a nil parent); the parent's RootFS (a fresh one for a nil parent) with the
  located diff identity appended exactly when that entry is not an empty layer; the
  requested config; and the target's Architecture, OS and Author.
\<close>

theorem restoreCachedImage_restored_image:
  assumes valid: "isValidParent target parent"
    and inv: "length (DiffIDs (RootFS target)) =
                length (filter (\<lambda>h. \<not> EmptyLayer h) (History target))"
    and digests: "'''' \<notin> set (DiffIDs (RootFS target))"
  shows "\<exists>restoredImg layer.
           calls (snd (restoreCachedImage d st parent target cfg)) =
             calls st @ [CallCreate parent restoredImg layer] \<and>
           fst (restoreCachedImage d st parent target cfg) =
             (case fst (Create st (state st) parent restoredImg layer) of
                Inl e \<Rightarrow> Err (Wrapf FailedToCreateCacheImage e)
              | Inr imgID \<Rightarrow> Ok imgID) \<and>
           History restoredImg =
             (case parent of None \<Rightarrow> [] | Some p \<Rightarrow> History p) @
             [History target ! (case parent of None \<Rightarrow> 0 | Some p \<Rightarrow> length (History p))] \<and>
           RootFS restoredImg =
             (if EmptyLayer (History target ! (case parent of None \<Rightarrow> 0 | Some p \<Rightarrow> length (History p)))
              then (case parent of None \<Rightarrow> NewRootFS | Some p \<Rightarrow> RootFS p)
              else Append (case parent of None \<Rightarrow> NewRootFS | Some p \<Rightarrow> RootFS p) layer) \<and>
           (\<not> EmptyLayer (History target ! (case parent of None \<Rightarrow> 0 | Some p \<Rightarrow> length (History p)))
              \<longrightarrow> layer = DiffIDs (RootFS target) !
                    length (filter (\<lambda>h. \<not> EmptyLayer h)
                      (take (case parent of None \<Rightarrow> 0 | Some p \<Rightarrow> length (History p)) (History target)))) \<and>
           (EmptyLayer (History target ! (case parent of None \<Rightarrow> 0 | Some p \<Rightarrow> length (History p)))
              \<longrightarrow> layer = '''') \<and>
           Config restoredImg = cfg \<and>
           DockerVersion restoredImg = Version d \<and>
           Image.Architecture restoredImg = Image.Architecture target \<and>
           Image.OS restoredImg = Image.OS target \<and>
           Author restoredImg = Author target"
proof -
  let ?n = "case parent of None \<Rightarrow> 0 | Some p \<Rightarrow> length (History p)"
  let ?k = "length (filter (\<lambda>h. \<not> EmptyLayer h) (take ?n (History target)))"
  have n: "?n < length (History target)"
    using isValidParent_index[OF valid] .
  show ?thesis
  proof (cases "EmptyLayer (History target ! ?n)")
    case True
    then have l: "getLayerForHistoryIndex target ?n = Inr ''''"
      using getLayerForHistoryIndex_eq[OF n] by simp
    show ?thesis
      using n l True
      by (simp add: restoreCachedImage_def Let_def store_Create_def split: sum.splits prod.splits)
  next
    case False
    have k: "?k < length (DiffIDs (RootFS target))"
      using count_take_less[OF n False] inv by simp
    then have l: "getLayerForHistoryIndex target ?n = Inr (DiffIDs (RootFS target) ! ?k)"
      using getLayerForHistoryIndex_eq[OF n] False by simp
    have ne: "DiffIDs (RootFS target) ! ?k \<noteq> ''''"
      using digests k by (metis nth_mem)
    show ?thesis
      using n l False ne
      by (simp add: restoreCachedImage_def Let_def store_Create_def split: sum.splits prod.splits)
  qed
qed

lemma restore_ex1:
  "restoreCachedImage exDeps exLocalStore (Some exBase) exSource (Some exConfig) =
     (Ok ''new'', exLocalStore\<lparr>calls := [CallCreate (Some exBase) (exRestored exConfig [h0, h1] [''d0'', ''d1'']) ''d1'']\<rparr>)"
  by (simp add: restoreCachedImage_def Let_def store_Create_def getLayerForHistoryIndex_def
      exSource_def exBase_def exChild_def exRestored_def exLocalStore_def exDeps_def
      Append_def NewRootFS_def h0_def h1_def h2_def)

theorem restoreCachedImage_restored_image_witness:
  "calls (snd (restoreCachedImage exDeps exLocalStore (Some exBase) exSource (Some exConfig))) =
     [CallCreate (Some exBase) (exRestored exConfig [h0, h1] [''d0'', ''d1'']) ''d1''] \<and>
   fst (restoreCachedImage exDeps exLocalStore (Some exBase) exSource (Some exConfig)) = Ok ''new''"
proof -
  have v: "isValidParent exSource (Some exBase)"
    by (simp add: isValidParent_def exSource_def exBase_def exChild_def)
  have i: "length (DiffIDs (RootFS exSource)) =
             length (filter (\<lambda>h. \<not> EmptyLayer h) (History exSource))"
    by (simp add: exSource_def h0_def h1_def h2_def)
  have g: "'''' \<notin> set (DiffIDs (RootFS exSource))"
    by (simp add: exSource_def)
  from restoreCachedImage_restored_image[OF v i g, of exDeps exLocalStore "Some exConfig"] restore_ex1
  show ?thesis by simp
qed

text \<open>
  C8 as stated fails. With \<open>exSource\<close>, whose History is \<open>[h0, h1, h2]\<close> with \<open>h1\<close> not an
  empty layer, and an empty parent: a request for the command of \<open>h1\<close> is compared with
  the entry at index 0 and misses, nothing being restored; and the restoration from an
  empty parent builds the History \<open>[h0]\<close>, not \<open>[h1]\<close>.
\<close>

theorem restoreCachedImage_index_one_counterexample:
  "\<not> EmptyLayer h1 \<and>
   ImageCache_GetCache exDeps \<lparr>sources = [exSource], store = exLocalStore\<rparr> '''' (Some exConfig) exPlatform =
     Some (Ok '''', \<lparr>sources = [exSource], store = exLocalStore\<lparr>calls := [CallChildren '''']\<rparr>\<rparr>) \<and>
   calls (snd (restoreCachedImage exDeps exLocalStore None exSource (Some exConfig))) =
     [CallCreate None (exRestored exConfig [h0] [''d0'']) ''d0''] \<and>
   History (exRestored exConfig [h0] [''d0'']) \<noteq> [h1]"
  by (simp add: ImageCache_GetCache_def LocalImageCache_GetCache_def getLocalCachedImage_def
      getImageIDAndError_def store_Children_def isValidParent_def isValidConfig_def
      restoreCachedImage_def Let_def store_Create_def getLayerForHistoryIndex_def
      exSource_def exRestored_def exLocalStore_def exDeps_def exConfig_def
      Append_def NewRootFS_def h0_def h1_def h2_def)

text \<open>
  C8, amended. Given a source image with History \<open>[e0, e1, e2]\<close> where \<open>e0\<close> is not an empty
  layer, and an empty parent (nil, or with no history and no diff identities), for which
  the match is at index 0: the restored image has History \<open>[e0]\<close>, a RootFS diff list of
  length 1 whose element is the source's first diff identity (a non-empty string), and
  the requested config.
\<close>

theorem restoreCachedImage_empty_parent:
  assumes hist: "History target = [e0, e1, e2]"
    and layer: "\<not> EmptyLayer e0"
    and diffs: "DiffIDs (RootFS target) = d0 # ds"
    and digest: "d0 \<noteq> ''''"
    and parent: "parent = None \<or> (\<exists>p. parent = Some p \<and> History p = [] \<and> DiffIDs (RootFS p) = [])"
  shows "\<exists>restoredImg.
           calls (snd (restoreCachedImage d st parent target cfg)) =
             calls st @ [CallCreate parent restoredImg d0] \<and>
           History restoredImg = [e0] \<and>
           DiffIDs (RootFS restoredImg) = [d0] \<and>
           Config restoredImg = cfg"
proof -
  have n: "(case parent of None \<Rightarrow> 0 | Some p \<Rightarrow> length (History p)) = 0"
    using parent by auto
  have rf: "(case parent of None \<Rightarrow> NewRootFS | Some p \<Rightarrow> RootFS p) = NewRootFS"
    using parent by (auto simp: NewRootFS_def)
  have hs: "(case parent of None \<Rightarrow> [] | Some p \<Rightarrow> History p) = []"
    using parent by auto
  have l: "getLayerForHistoryIndex target 0 = Inr d0"
    using hist layer diffs by (simp add: getLayerForHistoryIndex_def)
  show ?thesis
    using n rf hs l digest hist
    by (simp add: restoreCachedImage_def Let_def store_Create_def Append_def NewRootFS_def
        split: sum.splits prod.splits)
qed

theorem restoreCachedImage_empty_parent_witness:
  "calls (snd (restoreCachedImage exDeps exLocalStore None exSource (Some exConfig))) =
     [CallCreate None (exRestored exConfig [h0] [''d0'']) ''d0'']"
proof -
  have e: "restoreCachedImage exDeps exLocalStore None exSource (Some exConfig) =
     (Ok ''new'', exLocalStore\<lparr>calls := [CallCreate None (exRestored exConfig [h0] [''d0'']) ''d0'']\<rparr>)"
    by (simp add: restoreCachedImage_def Let_def store_Create_def getLayerForHistoryIndex_def
      exSource_def exRestored_def exLocalStore_def exDeps_def
      Append_def NewRootFS_def h0_def h1_def h2_def)
  have 1: "History exSource = [h0, h1, h2]" by (simp add: exSource_def)
  have 2: "\<not> EmptyLayer h0" by (simp add: h0_def)
  have 3: "DiffIDs (RootFS exSource) = ''d0'' # [''d1'']" by (simp add: exSource_def)
  have 4: "''d0'' \<noteq> ''''" by simp
  have 5: "(None::Image option) = None \<or> (\<exists>p. (None::Image option) = Some p \<and> History p = [] \<and> DiffIDs (RootFS p) = [])"
    by simp
  from restoreCachedImage_empty_parent[OF 1 2 3 4 5, of exDeps exLocalStore "Some exConfig"] e
  show ?thesis by simp
qed

subsection \<open>Calls made on the store\<close>

lemma extendsCalls_refl: "extendsCalls P st st"
  unfolding extendsCalls_def by (rule exI[of _ "[]"]) simp

lemma extendsCalls_trans:
  "extendsCalls P st st1 \<Longrightarrow> extendsCalls P st1 st2 \<Longrightarrow> extendsCalls P st st2"
  unfolding extendsCalls_def
proof -
  assume "\<exists>cs. st1 = st\<lparr>calls := calls st @ cs\<rparr> \<and> list_all P cs"
    and "\<exists>cs. st2 = st1\<lparr>calls := calls st1 @ cs\<rparr> \<and> list_all P cs"
  then obtain cs1 cs2 where 1: "st1 = st\<lparr>calls := calls st @ cs1\<rparr>" "list_all P cs1"
    and 2: "st2 = st1\<lparr>calls := calls st1 @ cs2\<rparr>" "list_all P cs2" by blast
  have "st2 = st\<lparr>calls := calls st @ (cs1 @ cs2)\<rparr> \<and> list_all P (cs1 @ cs2)"
    using 1 2 by simp
  then show "\<exists>cs. st2 = st\<lparr>calls := calls st @ cs\<rparr> \<and> list_all P cs" by blast
qed

lemma extendsCalls_append:
  "list_all P cs \<Longrightarrow> extendsCalls P st (st\<lparr>calls := calls st @ cs\<rparr>)"
  unfolding extendsCalls_def by blast

lemma extendsCalls_weaken:
  "extendsCalls P st st' \<Longrightarrow> (\<And>c. P c \<Longrightarrow> Q c) \<Longrightarrow> extendsCalls Q st st'"
  unfolding extendsCalls_def by (auto simp: list_all_iff)

lemma extendsCalls_ops:
  assumes "extendsCalls P st st'"
  shows "Get st' = Get st" "GetParent st' = GetParent st" "SetParent st' = SetParent st"
    "Create st' = Create st" "IsBuiltLocally st' = IsBuiltLocally st" "Children st' = Children st"
    "state st' = state st"
  using assms unfolding extendsCalls_def by auto

lemma childrenLoop_step_cases:
  "snd (childrenLoop d st (i # ids) c p m) = st\<lparr>calls := calls st @ [CallGet i]\<rparr> \<or>
   snd (childrenLoop d st (i # ids) c p m) = st\<lparr>calls := calls st @ [CallGet i, CallIsBuiltLocally i]\<rparr> \<or>
   (\<exists>m'. childrenLoop d st (i # ids) c p m =
          childrenLoop d (st\<lparr>calls := calls st @ [CallGet i, CallIsBuiltLocally i]\<rparr>) ids c p m')"
  by (simp add: store_Get_def store_IsBuiltLocally_def split: sum.split option.split) blast

lemma childrenLoop_frame:
  "extendsCalls isLookupCall st (snd (childrenLoop d st ids c p m))"
proof (induction ids arbitrary: st m)
  case Nil
  show ?case by (simp add: extendsCalls_refl)
next
  case (Cons i ids)
  let ?st2 = "st\<lparr>calls := calls st @ [CallGet i, CallIsBuiltLocally i]\<rparr>"
  have e1: "extendsCalls isLookupCall st (st\<lparr>calls := calls st @ [CallGet i]\<rparr>)"
    by (rule extendsCalls_append) simp
  have e2: "extendsCalls isLookupCall st ?st2"
    by (rule extendsCalls_append) simp
  from childrenLoop_step_cases[of d st i ids c p m] show ?case
  proof (elim disjE exE)
    assume "snd (childrenLoop d st (i # ids) c p m) = st\<lparr>calls := calls st @ [CallGet i]\<rparr>"
    with e1 show ?thesis by simp
  next
    assume "snd (childrenLoop d st (i # ids) c p m) = ?st2"
    with e2 show ?thesis by simp
  next
    fix m' assume "childrenLoop d st (i # ids) c p m = childrenLoop d ?st2 ids c p m'"
    with extendsCalls_trans[OF e2 Cons.IH[of ?st2 m']] show ?thesis by simp
  qed
qed

lemma LocalImageCache_GetCache_frame:
  "extendsCalls isLookupCall st (snd (LocalImageCache_GetCache d st parentID cfg platform))"
proof (cases cfg)
  case None
  then show ?thesis
    by (simp add: LocalImageCache_GetCache_def getLocalCachedImage_def extendsCalls_refl)
next
  case (Some c)
  let ?st1 = "st\<lparr>calls := calls st @ [CallChildren parentID]\<rparr>"
  have e1: "extendsCalls isLookupCall st ?st1"
    by (rule extendsCalls_append) simp
  have "snd (LocalImageCache_GetCache d st parentID cfg platform) =
        snd (childrenLoop d ?st1 (Children st (state st) parentID) c platform None)"
    using Some
    by (simp add: LocalImageCache_GetCache_def getLocalCachedImage_def store_Children_def split: prod.split)
  with extendsCalls_trans[OF e1 childrenLoop_frame] show ?thesis by simp
qed

lemma lookup_not_create: "list_all isLookupCall cs \<Longrightarrow> \<not> list_ex isCreateCall cs"
proof (induction cs)
  case Nil
  show ?case by simp
next
  case (Cons c cs)
  then show ?case by (cases c) simp_all
qed

lemma getParent_is_lookup: "isGetParentCall c \<Longrightarrow> isLookupCall c"
  by (cases c) simp_all

subsection \<open>The ancestry check\<close>

lemma ancestors_calls [simp]: "ancestors (st\<lparr>calls := cs\<rparr>) n i = ancestors st n i"
  by (induction n arbitrary: i) (simp_all split: sum.split)

lemma isParent_frame:
  assumes run: "isParent st0 imgID0 parentID0 = Some y0"
  shows "extendsCalls isGetParentCall st0 (snd y0)"
proof (rule isParent.raw_induct[where P = "\<lambda>st a b y. extendsCalls isGetParentCall st (snd y)",
        OF _ run])
  fix isP :: "'a ImageCacheStore \<Rightarrow> ID \<Rightarrow> ID \<Rightarrow> (bool \<times> 'a ImageCacheStore) option"
    and st imgID parentID y
  assume IH: "\<And>st a b y. isP st a b = Some y \<Longrightarrow> extendsCalls isGetParentCall st (snd y)"
    and eq: "(case store_GetParent st imgID of
                (Inl e, st1) \<Rightarrow> Some (False, st1)
              | (Inr nextParent, st1) \<Rightarrow>
                  if nextParent = parentID then Some (True, st1)
                  else isP st1 nextParent parentID) = Some y"
  let ?st1 = "st\<lparr>calls := calls st @ [CallGetParent imgID]\<rparr>"
  have e1: "extendsCalls isGetParentCall st ?st1"
    by (rule extendsCalls_append) simp
  show "extendsCalls isGetParentCall st (snd y)"
  proof (cases "GetParent st (state st) imgID")
    case (Inl e)
    with eq have "snd y = ?st1" by (auto simp: store_GetParent_def)
    with e1 show ?thesis by simp
  next
    case (Inr nextParent)
    show ?thesis
    proof (cases "nextParent = parentID")
      case True
      with Inr eq have "snd y = ?st1" by (auto simp: store_GetParent_def)
      with e1 show ?thesis by simp
    next
      case False
      with Inr eq have "isP ?st1 nextParent parentID = Some y"
        by (simp add: store_GetParent_def)
      from extendsCalls_trans[OF e1 IH[OF this]] show ?thesis .
    qed
  qed
qed

lemma isParent_found:
  "parentID \<in> set (ancestors st n imgID) \<Longrightarrow> \<exists>st'. isParent st imgID parentID = Some (True, st')"
proof (induction n arbitrary: st imgID)
  case 0
  then show ?case by simp
next
  case (Suc n)
  let ?st1 = "st\<lparr>calls := calls st @ [CallGetParent imgID]\<rparr>"
  from Suc.prems obtain p where p: "GetParent st (state st) imgID = Inr p"
    by (cases "GetParent st (state st) imgID") auto
  show ?case
  proof (cases "p = parentID")
    case True
    with p show ?thesis
      by (subst isParent.simps) (simp add: store_GetParent_def)
  next
    case False
    with p Suc.prems have "parentID \<in> set (ancestors ?st1 n p)" by simp
    from Suc.IH[OF this] obtain st' where "isParent ?st1 p parentID = Some (True, st')" by blast
    with p False show ?thesis
      by (subst isParent.simps) (simp add: store_GetParent_def)
  qed
qed

lemma isParent_ended:
  "parentID \<notin> set (ancestors st n imgID) \<Longrightarrow> length (ancestors st n imgID) < n \<Longrightarrow>
   \<exists>st'. isParent st imgID parentID = Some (False, st')"
proof (induction n arbitrary: st imgID)
  case 0
  then show ?case by simp
next
  case (Suc n)
  let ?st1 = "st\<lparr>calls := calls st @ [CallGetParent imgID]\<rparr>"
  show ?case
  proof (cases "GetParent st (state st) imgID")
    case (Inl e)
    then show ?thesis
      by (subst isParent.simps) (simp add: store_GetParent_def)
  next
    case (Inr p)
    with Suc.prems have ne: "p \<noteq> parentID" and a: "parentID \<notin> set (ancestors ?st1 n p)"
      and l: "length (ancestors ?st1 n p) < n" by auto
    from Suc.IH[OF a l] obtain st' where "isParent ?st1 p parentID = Some (False, st')" by blast
    with Inr ne show ?thesis
      by (subst isParent.simps) (simp add: store_GetParent_def)
  qed
qed

lemma verifyLoop_frame:
  "verifyLoop st srcs imgID = Some (r, st') \<Longrightarrow> extendsCalls isGetParentCall st st'"
proof (induction srcs arbitrary: st)
  case Nil
  then show ?case by (simp add: extendsCalls_refl)
next
  case (Cons s srcs)
  from Cons.prems obtain found st1 where ip: "isParent st (ID s) imgID = Some (found, st1)"
    by (cases "isParent st (ID s) imgID") auto
  from isParent_frame[OF ip] have e1: "extendsCalls isGetParentCall st st1" by simp
  show ?case
  proof (cases found)
    case True
    with ip Cons.prems have "st' = st1" by simp
    with e1 show ?thesis by simp
  next
    case False
    with ip Cons.prems have "verifyLoop st1 srcs imgID = Some (r, st')" by simp
    from extendsCalls_trans[OF e1 Cons.IH[OF this]] show ?thesis .
  qed
qed

lemma ancestors_extendsCalls:
  "extendsCalls P st st' \<Longrightarrow> ancestors st' n i = ancestors st n i"
  unfolding extendsCalls_def by auto

lemma verifyLoop_found:
  assumes "\<forall>s\<in>set srcs. \<exists>n. imgID \<in> set (ancestors st n (ID s)) \<or> length (ancestors st n (ID s)) < n"
    and "\<exists>s\<in>set srcs. \<exists>n. imgID \<in> set (ancestors st n (ID s))"
  shows "\<exists>st'. verifyLoop st srcs imgID = Some (True, st')"
  using assms
proof (induction srcs arbitrary: st)
  case Nil
  then show ?case by simp
next
  case (Cons s srcs)
  show ?case
  proof (cases "\<exists>n. imgID \<in> set (ancestors st n (ID s))")
    case True
    then obtain n where "imgID \<in> set (ancestors st n (ID s))" by blast
    from isParent_found[OF this] obtain st1 where "isParent st (ID s) imgID = Some (True, st1)" by blast
    then show ?thesis by simp
  next
    case False
    with Cons.prems(1) obtain n where n: "length (ancestors st n (ID s)) < n" by auto
    from False have "imgID \<notin> set (ancestors st n (ID s))" by blast
    from isParent_ended[OF this n] obtain st1 where ip: "isParent st (ID s) imgID = Some (False, st1)" by blast
    from isParent_frame[OF ip] have e: "extendsCalls isGetParentCall st st1" by simp
    have 1: "\<forall>s\<in>set srcs. \<exists>n. imgID \<in> set (ancestors st1 n (ID s)) \<or> length (ancestors st1 n (ID s)) < n"
      using Cons.prems(1) by (simp add: ancestors_extendsCalls[OF e])
    have 2: "\<exists>s\<in>set srcs. \<exists>n. imgID \<in> set (ancestors st1 n (ID s))"
      using Cons.prems(2) False by (simp add: ancestors_extendsCalls[OF e])
    from Cons.IH[OF 1 2] ip show ?thesis by simp
  qed
qed

lemma verifyLoop_not_found:
  assumes "\<forall>s\<in>set srcs. \<exists>n. imgID \<notin> set (ancestors st n (ID s)) \<and> length (ancestors st n (ID s)) < n"
  shows "\<exists>st'. verifyLoop st srcs imgID = Some (False, st')"
  using assms
proof (induction srcs arbitrary: st)
  case Nil
  show ?case by simp
next
  case (Cons s srcs)
  from Cons.prems obtain n where a: "imgID \<notin> set (ancestors st n (ID s))"
    and l: "length (ancestors st n (ID s)) < n" by auto
  from isParent_ended[OF a l] obtain st1 where ip: "isParent st (ID s) imgID = Some (False, st1)"
    by blast
  from isParent_frame[OF ip] have e: "extendsCalls isGetParentCall st st1" by simp
  have "\<forall>s\<in>set srcs. \<exists>n. imgID \<notin> set (ancestors st1 n (ID s)) \<and> length (ancestors st1 n (ID s)) < n"
    using Cons.prems by (simp add: ancestors_extendsCalls[OF e])
  from Cons.IH[OF this] ip show ?case by simp
qed

subsection \<open>The scan of the sources\<close>




lemma GetCache_fallthrough:
  assumes local: "LocalImageCache_GetCache d (store ic) parentID cfg platform = (Ok imgID, st1)"
    and unverified: "imgID = '''' \<or> (\<exists>st2. verifyLoop st1 (sources ic) imgID = Some (False, st2))"
  shows "\<exists>st2. extendsCalls isLookupCall (store ic) st2 \<and>
     ImageCache_GetCache d ic parentID cfg platform =
       (if parentID \<noteq> ''''
        then (case Get (store ic) (state (store ic)) parentID of
                Inl e \<Rightarrow> Some (Err (Wrapf (UnableToFindImage parentID) e),
                               ic\<lparr>store := st2\<lparr>calls := calls st2 @ [CallGet parentID]\<rparr>\<rparr>)
              | Inr parent \<Rightarrow>
                  Some (sourcesLoop d (ic\<lparr>store := st2\<lparr>calls := calls st2 @ [CallGet parentID]\<rparr>\<rparr>)
                          parentID (Some parent) (length (History parent)) cfg (sources ic)))
        else Some (sourcesLoop d (ic\<lparr>store := st2\<rparr>) parentID None 0 cfg (sources ic)))"
proof -
  from LocalImageCache_GetCache_frame[of "store ic" d parentID cfg platform] local
  have e1: "extendsCalls isLookupCall (store ic) st1" by simp
  obtain st2 where v: "(if imgID \<noteq> '''' then verifyLoop st1 (sources ic) imgID else Some (False, st1)) = Some (False, st2)"
    using unverified by (cases "imgID = ''''") auto
  have e12: "extendsCalls isLookupCall st1 st2"
  proof (cases "imgID = ''''")
    case True
    with v show ?thesis by (simp add: extendsCalls_refl)
  next
    case False
    with v have "verifyLoop st1 (sources ic) imgID = Some (False, st2)" by simp
    from verifyLoop_frame[OF this] show ?thesis
      by (rule extendsCalls_weaken) (case_tac c, simp_all)
  qed
  from extendsCalls_trans[OF e1 e12] have e2: "extendsCalls isLookupCall (store ic) st2" .
  have g: "Get st2 (state st2) parentID = Get (store ic) (state (store ic)) parentID"
    using extendsCalls_ops[OF e2] by simp
  have "ImageCache_GetCache d ic parentID cfg platform =
       (if parentID \<noteq> ''''
        then (case Get (store ic) (state (store ic)) parentID of
                Inl e \<Rightarrow> Some (Err (Wrapf (UnableToFindImage parentID) e),
                               ic\<lparr>store := st2\<lparr>calls := calls st2 @ [CallGet parentID]\<rparr>\<rparr>)
              | Inr parent \<Rightarrow>
                  Some (sourcesLoop d (ic\<lparr>store := st2\<lparr>calls := calls st2 @ [CallGet parentID]\<rparr>\<rparr>)
                          parentID (Some parent) (length (History parent)) cfg (sources ic)))
        else Some (sourcesLoop d (ic\<lparr>store := st2\<rparr>) parentID None 0 cfg (sources ic)))"
    unfolding ImageCache_GetCache_def local using v g
    by (simp add: store_Get_def split: sum.split)
  with e2 show ?thesis by blast
qed

lemma exStore_unfold:
  "store \<lparr>sources = srcs, store = st\<rparr> = st" "sources \<lparr>sources = srcs, store = st\<rparr> = srcs"
  by simp_all




text \<open>
  C2 as stated fails. The parent \<^verbatim>\<open>base\<close> has the locally built child \<^verbatim>\<open>c2\<close> that
  passes the platform and config filters, and the local cache returns it; with the
  registered source \<open>exOther\<close>, from which no parent link leads to \<^verbatim>\<open>c2\<close>, the combined
  cache does not return it: it fetches the parent, scans the source and reports a miss.
\<close>

theorem ImageCache_GetCache_unverified_hit_counterexample:
  "''c2'' \<in> set (Children exLocalStore (state exLocalStore) ''base'') \<and>
   localCandidate exDeps exLocalStore exConfig exPlatform ''c2'' (exChild ''c2'' (Some 7)) \<and>
   fst (LocalImageCache_GetCache exDeps exLocalStore ''base'' (Some exConfig) exPlatform) = Ok ''c2'' \<and>
   ImageCache_GetCache exDeps \<lparr>sources = [exOther], store = exLocalStore\<rparr> ''base''
       (Some exConfig) exPlatform =
     Some (Ok '''',
           \<lparr>sources = [exOther],
            store = exLocalStore\<lparr>calls :=
              [CallChildren ''base'',
               CallGet ''c1'', CallIsBuiltLocally ''c1'', CallGet ''c2'', CallIsBuiltLocally ''c2'',
               CallGet ''c3'', CallIsBuiltLocally ''c3'', CallGet ''legacy'', CallIsBuiltLocally ''legacy'',
               CallGetParent ''other'', CallGet ''base'']\<rparr>\<rparr>)"
proof -
  let ?st1 = "exLocalStore\<lparr>calls :=
              [CallChildren ''base'',
               CallGet ''c1'', CallIsBuiltLocally ''c1'', CallGet ''c2'', CallIsBuiltLocally ''c2'',
               CallGet ''c3'', CallIsBuiltLocally ''c3'', CallGet ''legacy'', CallIsBuiltLocally ''legacy'']\<rparr>"
  have 1: "LocalImageCache_GetCache exDeps exLocalStore ''base'' (Some exConfig) exPlatform = (Ok ''c2'', ?st1)"
    by (simp add: LocalImageCache_GetCache_def getLocalCachedImage_def getImageIDAndError_def
        store_Children_def store_Get_def store_IsBuiltLocally_def exLocalStore_def exDeps_def
        exConfig_def exPlatform_def exChild_def exLegacy_def Image_Platform_def)
  have 2: "ImageCache_GetCache exDeps \<lparr>sources = [exOther], store = exLocalStore\<rparr> ''base''
       (Some exConfig) exPlatform =
     Some (Ok '''', \<lparr>sources = [exOther],
        store = ?st1\<lparr>calls := calls ?st1 @ [CallGetParent ''other'', CallGet ''base'']\<rparr>\<rparr>)"
    unfolding ImageCache_GetCache_def exStore_unfold 1
    by (simp add: isParent.simps store_GetParent_def store_Get_def isValidParent_def
        exLocalStore_def exOther_def exSource_def exBase_def exChild_def)
  have 3: "''c2'' \<in> set (Children exLocalStore (state exLocalStore) ''base'') \<and>
           localCandidate exDeps exLocalStore exConfig exPlatform ''c2'' (exChild ''c2'' (Some 7))"
    by (simp add: localCandidate_def exLocalStore_def exDeps_def exConfig_def exPlatform_def
        exChild_def Image_Platform_def)
  from 1 2 3 show ?thesis by simp
qed

text \<open>
  C2, amended. For every parent identity, config and platform for which the local
  parent-chain cache returns a hit, provided the store's parent links from every
  registered source reach that hit or end (\<^verbatim>\<open>isParent\<close> has no cycle guard and need not
  return otherwise): the ancestry check calls nothing but \<^verbatim>\<open>GetParent\<close> on the store,
  and then, if the hit is met by following the parent links from some registered source,
  the combined cache's \<^verbatim>\<open>GetCache\<close> returns that hit at once and leaves the source list
  alone, the parent image not being fetched and no source scanned; if the hit is met
  from no registered source it is not trusted, and the call falls through to the
  history scan: its result is that of fetching the parent (when \<^verbatim>\<open>parentID\<close> is not
  empty) and running the loop over the sources.
\<close>

theorem ImageCache_GetCache_local_hit:
  assumes local: "LocalImageCache_GetCache d (store ic) parentID cfg platform = (Ok imgID, st1)"
    and hit: "imgID \<noteq> ''''"
    and chains: "\<forall>s\<in>set (sources ic). \<exists>n. imgID \<in> set (ancestors (store ic) n (ID s)) \<or>
                    length (ancestors (store ic) n (ID s)) < n"
  shows "\<exists>st2. extendsCalls isGetParentCall st1 st2 \<and>
           ImageCache_GetCache d ic parentID cfg platform =
             (if \<exists>s\<in>set (sources ic). \<exists>n. imgID \<in> set (ancestors (store ic) n (ID s))
              then Some (Ok imgID, ic\<lparr>store := st2\<rparr>)
              else if parentID \<noteq> ''''
              then (case Get (store ic) (state (store ic)) parentID of
                      Inl e \<Rightarrow>
                        Some (Err (Wrapf (UnableToFindImage parentID) e),
                              ic\<lparr>store := st2\<lparr>calls := calls st2 @ [CallGet parentID]\<rparr>\<rparr>)
                    | Inr parent \<Rightarrow>
                        Some (sourcesLoop d (ic\<lparr>store := st2\<lparr>calls := calls st2 @ [CallGet parentID]\<rparr>\<rparr>)
                                parentID (Some parent) (length (History parent)) cfg (sources ic)))
              else Some (sourcesLoop d (ic\<lparr>store := st2\<rparr>) parentID None 0 cfg (sources ic)))"
proof -
  from LocalImageCache_GetCache_frame[of "store ic" d parentID cfg platform] local
  have e1: "extendsCalls isLookupCall (store ic) st1" by simp
  note anc1 = ancestors_extendsCalls[OF e1]
  show ?thesis
  proof (cases "\<exists>s\<in>set (sources ic). \<exists>n. imgID \<in> set (ancestors (store ic) n (ID s))")
    case True
    have c1: "\<forall>s\<in>set (sources ic). \<exists>n. imgID \<in> set (ancestors st1 n (ID s)) \<or>
                    length (ancestors st1 n (ID s)) < n"
      using chains by (simp add: anc1)
    have a1: "\<exists>s\<in>set (sources ic). \<exists>n. imgID \<in> set (ancestors st1 n (ID s))"
      using True by (simp add: anc1)
    from verifyLoop_found[OF c1 a1] obtain st2 where
      v: "verifyLoop st1 (sources ic) imgID = Some (True, st2)" by blast
    from verifyLoop_frame[OF v] have e2: "extendsCalls isGetParentCall st1 st2" .
    have "ImageCache_GetCache d ic parentID cfg platform = Some (Ok imgID, ic\<lparr>store := st2\<rparr>)"
      unfolding ImageCache_GetCache_def local using hit v by simp
    with e2 True show ?thesis by (intro exI[of _ st2]) (simp only: if_True simp_thms)
  next
    case False
    have "\<forall>s\<in>set (sources ic). \<exists>n. imgID \<notin> set (ancestors st1 n (ID s)) \<and>
            length (ancestors st1 n (ID s)) < n"
    proof
      fix s assume s: "s \<in> set (sources ic)"
      with chains obtain n where "imgID \<in> set (ancestors (store ic) n (ID s)) \<or>
                    length (ancestors (store ic) n (ID s)) < n" by blast
      moreover from False s have "imgID \<notin> set (ancestors (store ic) n (ID s))" by blast
      ultimately show "\<exists>n. imgID \<notin> set (ancestors st1 n (ID s)) \<and> length (ancestors st1 n (ID s)) < n"
        by (intro exI[of _ n]) (simp add: anc1)
    qed
    from verifyLoop_not_found[OF this] obtain st2 where
      v: "verifyLoop st1 (sources ic) imgID = Some (False, st2)" by blast
    from verifyLoop_frame[OF v] have e2: "extendsCalls isGetParentCall st1 st2" .
    have "extendsCalls isLookupCall st1 st2"
      by (rule extendsCalls_weaken[OF e2]) (rule getParent_is_lookup)
    from extendsCalls_trans[OF e1 this] have e02: "extendsCalls isLookupCall (store ic) st2" .
    have g: "Get st2 (state st2) parentID = Get (store ic) (state (store ic)) parentID"
      using extendsCalls_ops[OF e02] by simp
    have "ImageCache_GetCache d ic parentID cfg platform =
       (if parentID \<noteq> ''''
              then (case Get (store ic) (state (store ic)) parentID of
                      Inl e \<Rightarrow>
                        Some (Err (Wrapf (UnableToFindImage parentID) e),
                              ic\<lparr>store := st2\<lparr>calls := calls st2 @ [CallGet parentID]\<rparr>\<rparr>)
                    | Inr parent \<Rightarrow>
                        Some (sourcesLoop d (ic\<lparr>store := st2\<lparr>calls := calls st2 @ [CallGet parentID]\<rparr>\<rparr>)
                                parentID (Some parent) (length (History parent)) cfg (sources ic)))
              else Some (sourcesLoop d (ic\<lparr>store := st2\<rparr>) parentID None 0 cfg (sources ic)))"
      unfolding ImageCache_GetCache_def local using hit v g
      by (simp add: store_Get_def split: sum.split)
    with e2 False show ?thesis by (intro exI[of _ st2]) (simp only: if_False simp_thms)
  qed
qed

theorem ImageCache_GetCache_local_hit_witness:
  "ImageCache_GetCache exDeps \<lparr>sources = [exOther, exSource], store = exLocalStore\<rparr> ''base''
       (Some exConfig) exPlatform =
     Some (Ok ''c2'',
           \<lparr>sources = [exOther, exSource],
            store = exLocalStore\<lparr>calls :=
              [CallChildren ''base'',
               CallGet ''c1'', CallIsBuiltLocally ''c1'', CallGet ''c2'', CallIsBuiltLocally ''c2'',
               CallGet ''c3'', CallIsBuiltLocally ''c3'', CallGet ''legacy'', CallIsBuiltLocally ''legacy'',
               CallGetParent ''other'', CallGetParent ''src'']\<rparr>\<rparr>) \<and>
   ImageCache_GetCache exDeps \<lparr>sources = [exOther], store = exLocalStore\<rparr> ''base''
       (Some exConfig) exPlatform =
     Some (Ok [],
           \<lparr>sources = [exOther],
            store = exLocalStore\<lparr>calls :=
              [CallChildren ''base'',
               CallGet ''c1'', CallIsBuiltLocally ''c1'', CallGet ''c2'', CallIsBuiltLocally ''c2'',
               CallGet ''c3'', CallIsBuiltLocally ''c3'', CallGet ''legacy'', CallIsBuiltLocally ''legacy'',
               CallGetParent ''other'', CallGet ''base'']\<rparr>\<rparr>)"
proof -
  let ?ic = "\<lparr>sources = [exOther, exSource], store = exLocalStore\<rparr>"
  let ?ic' = "\<lparr>sources = [exOther], store = exLocalStore\<rparr>"
  let ?st1 = "exLocalStore\<lparr>calls :=
              [CallChildren ''base'',
               CallGet ''c1'', CallIsBuiltLocally ''c1'', CallGet ''c2'', CallIsBuiltLocally ''c2'',
               CallGet ''c3'', CallIsBuiltLocally ''c3'', CallGet ''legacy'', CallIsBuiltLocally ''legacy'']\<rparr>"
  have l: "LocalImageCache_GetCache exDeps exLocalStore ''base'' (Some exConfig) exPlatform = (Ok ''c2'', ?st1)"
    by (simp add: LocalImageCache_GetCache_def getLocalCachedImage_def getImageIDAndError_def
        store_Children_def store_Get_def store_IsBuiltLocally_def exLocalStore_def exDeps_def
        exConfig_def exPlatform_def exChild_def exLegacy_def Image_Platform_def)
  have 1: "LocalImageCache_GetCache exDeps (store ?ic) ''base'' (Some exConfig) exPlatform = (Ok ''c2'', ?st1)"
    using l by simp
  have h1b: "LocalImageCache_GetCache exDeps (store ?ic') ''base'' (Some exConfig) exPlatform = (Ok ''c2'', ?st1)"
    using l by simp
  have 2: "''c2'' \<noteq> ''''" by simp
  have a0: "ancestors exLocalStore (Suc 0) ''other'' = []"
    by (simp add: exLocalStore_def)
  have a1: "ancestors exLocalStore (Suc 0) ''src'' = [''c2'']"
    by (simp add: exLocalStore_def)
  have o: "\<exists>n. ''c2'' \<in> set (ancestors exLocalStore n (ID exOther)) \<or>
             length (ancestors exLocalStore n (ID exOther)) < n"
  proof -
    have "length (ancestors exLocalStore (Suc 0) ''other'') < Suc 0" unfolding a0 by simp
    then show ?thesis by (intro exI[of _ "Suc 0"]) (simp add: exOther_def exSource_def)
  qed
  have s: "\<exists>n. ''c2'' \<in> set (ancestors exLocalStore n (ID exSource)) \<or>
             length (ancestors exLocalStore n (ID exSource)) < n"
  proof -
    have "''c2'' \<in> set (ancestors exLocalStore (Suc 0) ''src'')" unfolding a1 by simp
    then show ?thesis by (intro exI[of _ "Suc 0"]) (simp add: exSource_def)
  qed
  have 3: "\<forall>s\<in>set (sources ?ic). \<exists>n. ''c2'' \<in> set (ancestors (store ?ic) n (ID s)) \<or>
                    length (ancestors (store ?ic) n (ID s)) < n"
    using o s by simp
  have h3b: "\<forall>s\<in>set (sources ?ic'). \<exists>n. ''c2'' \<in> set (ancestors (store ?ic') n (ID s)) \<or>
                    length (ancestors (store ?ic') n (ID s)) < n"
    using o by simp
  have e: "ImageCache_GetCache exDeps ?ic ''base'' (Some exConfig) exPlatform =
     Some (Ok ''c2'', ?ic\<lparr>store := ?st1\<lparr>calls := calls ?st1 @ [CallGetParent ''other'', CallGetParent ''src'']\<rparr>\<rparr>)"
    unfolding ImageCache_GetCache_def 1
    by (simp add: isParent.simps store_GetParent_def exLocalStore_def exOther_def exSource_def)
  have e': "ImageCache_GetCache exDeps ?ic' ''base'' (Some exConfig) exPlatform =
     Some (Ok [], ?ic'\<lparr>store := ?st1\<lparr>calls := calls ?st1 @ [CallGetParent ''other'', CallGet ''base'']\<rparr>\<rparr>)"
    unfolding ImageCache_GetCache_def h1b
    by (simp add: isParent.simps store_GetParent_def store_Get_def isValidParent_def
        exLocalStore_def exOther_def exSource_def exBase_def exChild_def)
  from ImageCache_GetCache_local_hit[OF 1 2 3] ImageCache_GetCache_local_hit[OF h1b 2 h3b] e e'
  show ?thesis by simp
qed

subsection \<open>The source list\<close>

lemma restoreCachedImage_calls:
  assumes "restoreCachedImage d st parent target cfg = (r, st1)"
  shows "\<exists>cs. calls st1 = calls st @ cs \<and> ((\<exists>x. r = Ok x) \<longrightarrow> list_ex isCreateCall cs)"
proof (cases "(case parent of None \<Rightarrow> 0 | Some p \<Rightarrow> length (History p)) < length (History target)")
  case False
  with assms have "st1 = st" "r = Panic IndexOutOfRange"
    by (simp_all add: restoreCachedImage_def Let_def)
  then show ?thesis by simp
next
  case True
  show ?thesis
  proof (cases "getLayerForHistoryIndex target (case parent of None \<Rightarrow> 0 | Some p \<Rightarrow> length (History p))")
    case (Inl p)
    with True assms have "st1 = st" "r = Panic p"
      by (simp_all add: restoreCachedImage_def Let_def)
    then show ?thesis by simp
  next
    case (Inr layer)
    with True assms obtain img where "calls st1 = calls st @ [CallCreate parent img layer]"
      by (auto simp: restoreCachedImage_def Let_def store_Create_def split: sum.splits)
    then show ?thesis by simp
  qed
qed

lemma sourcesLoop_final_eq:
  assumes "isValidParent t parent" "isValidConfig cfg (History t ! n) = Inr True"
    "n < length (History t)" "int (length (History t)) - 1 = int n"
  shows "sourcesLoop d ic pid parent n cfg (t # rest) =
     (case parent of
        None \<Rightarrow> (Ok (ID t), ic)
      | Some p \<Rightarrow>
          (case store_SetParent (store ic) (ID t) (ID p) of
             (Some e, st1) \<Rightarrow> (Err (Wrapf (FailedToSetParent (ID t) (ID p)) e), ic\<lparr>store := st1\<rparr>)
           | (None, st1) \<Rightarrow> (Ok (ID t), ic\<lparr>store := st1\<rparr>)))"
  using assms by simp

lemma sourcesLoop_restore_eq:
  assumes "isValidParent t parent" "isValidConfig cfg (History t ! n) = Inr True"
    "n < length (History t)" "int (length (History t)) - 1 \<noteq> int n"
  shows "sourcesLoop d ic pid parent n cfg (t # rest) =
     (case restoreCachedImage d (store ic) parent t cfg of
        (Ok imgID, st1) \<Rightarrow> (Ok imgID, ic\<lparr>sources := [t], store := st1\<rparr>)
      | (Err e, st1) \<Rightarrow> (Err (Wrapf (FailedToRestore pid (ID t)) e), ic\<lparr>store := st1\<rparr>)
      | (Panic p, st1) \<Rightarrow> (Panic p, ic\<lparr>store := st1\<rparr>))"
  using assms by simp

lemma sourcesLoop_sources:
  assumes "sourcesLoop d ic pid parent n cfg srcs = (r, ic')"
  shows "\<exists>cs. calls (store ic') = calls (store ic) @ cs \<and>
     (if (\<exists>x. r = Ok x) \<and> list_ex isCreateCall cs
      then \<exists>pre t post. srcs = pre @ t # post \<and> sources ic' = [t] \<and>
             isValidParent t parent \<and> isValidConfig cfg (History t ! n) = Inr True \<and>
             int (length (History t)) - 1 \<noteq> int n \<and>
             (\<forall>u\<in>set pre. \<not> (isValidParent u parent \<and> isValidConfig cfg (History u ! n) = Inr True))
      else sources ic' = sources ic)"
  using assms
proof (induction srcs)
  case Nil
  then show ?case by auto
next
  case (Cons t rest)
  let ?cand = "\<lambda>u. isValidParent u parent \<and> isValidConfig cfg (History u ! n) = Inr True"
  consider (skip) "\<not> ?cand t" "sourcesLoop d ic pid parent n cfg (t # rest) = sourcesLoop d ic pid parent n cfg rest"
    | (panic) "sources ic' = sources ic" "store ic' = store ic" "\<forall>x. r \<noteq> Ok x"
    | (final) "?cand t" "int (length (History t)) - 1 = int n" "n < length (History t)"
    | (restore) "?cand t" "int (length (History t)) - 1 \<noteq> int n" "n < length (History t)"
  proof (cases "isValidParent t parent")
    case False
    then show ?thesis using skip by simp
  next
    case v: True
    show ?thesis
    proof (cases "n < length (History t)")
      case False
      with v Cons.prems have "ic' = ic" "r = Panic IndexOutOfRange" by simp_all
      then show ?thesis using panic by simp
    next
      case l: True
      show ?thesis
      proof (cases "isValidConfig cfg (History t ! n)")
        case (Inl p)
        with v l Cons.prems have "ic' = ic" "r = Panic p" by simp_all
        then show ?thesis using panic by simp
      next
        case (Inr b)
        show ?thesis
        proof (cases b)
          case False
          with Inr v l show ?thesis using skip by simp
        next
          case True
          with Inr have c: "isValidConfig cfg (History t ! n) = Inr True" by simp
          show ?thesis
          proof (cases "int (length (History t)) - 1 = int n")
            case True
            then show ?thesis using final v c l by simp
          next
            case False
            then show ?thesis using restore v c l by simp
          qed
        qed
      qed
    qed
  qed
  then show ?case
  proof cases
    case skip
    from Cons.prems skip(2) have "sourcesLoop d ic pid parent n cfg rest = (r, ic')" by simp
    from Cons.IH[OF this] obtain cs where cs: "calls (store ic') = calls (store ic) @ cs"
      and alt: "(if (\<exists>x. r = Ok x) \<and> list_ex isCreateCall cs
      then \<exists>pre t post. rest = pre @ t # post \<and> sources ic' = [t] \<and>
             isValidParent t parent \<and> isValidConfig cfg (History t ! n) = Inr True \<and>
             int (length (History t)) - 1 \<noteq> int n \<and>
             (\<forall>u\<in>set pre. \<not> (isValidParent u parent \<and> isValidConfig cfg (History u ! n) = Inr True))
      else sources ic' = sources ic)" by blast
    show ?thesis
    proof (cases "(\<exists>x. r = Ok x) \<and> list_ex isCreateCall cs")
      case False
      with alt have same: "sources ic' = sources ic" by simp
      from False have f: "((\<exists>x. r = Ok x) \<and> list_ex isCreateCall cs) = False" by simp
      show ?thesis unfolding f[symmetric]
        by (rule exI[of _ cs]) (simp only: f if_False cs same simp_thms)
    next
      case True
      with alt obtain pre u post where p: "rest = pre @ u # post" "sources ic' = [u]"
        "isValidParent u parent" "isValidConfig cfg (History u ! n) = Inr True"
        "int (length (History u)) - 1 \<noteq> int n"
        "\<forall>w\<in>set pre. \<not> (isValidParent w parent \<and> isValidConfig cfg (History w ! n) = Inr True)"
        by auto
      have "t # rest = (t # pre) @ u # post" using p(1) by simp
      moreover have "\<forall>w\<in>set (t # pre). \<not> (isValidParent w parent \<and> isValidConfig cfg (History w ! n) = Inr True)"
        using p(6) skip(1) by simp
      ultimately have "\<exists>pre t' post. t # rest = pre @ t' # post \<and> sources ic' = [t'] \<and>
             isValidParent t' parent \<and> isValidConfig cfg (History t' ! n) = Inr True \<and>
             int (length (History t')) - 1 \<noteq> int n \<and>
             (\<forall>u\<in>set pre. \<not> (isValidParent u parent \<and> isValidConfig cfg (History u ! n) = Inr True))"
        using p(2,3,4,5) by blast
      with cs True show ?thesis by (intro exI[of _ cs]) simp
    qed
  next
    case panic
    then have "calls (store ic') = calls (store ic) @ []" by simp
    with panic show ?thesis by (intro exI[of _ "[]"]) simp
  next
    case final
    note eq = sourcesLoop_final_eq[OF conjunct1[OF final(1)] conjunct2[OF final(1)] final(3) final(2),
        of d ic pid rest]
    have run: "(case parent of
        None \<Rightarrow> (Ok (ID t), ic)
      | Some p \<Rightarrow>
          (case store_SetParent (store ic) (ID t) (ID p) of
             (Some e, st1) \<Rightarrow> (Err (Wrapf (FailedToSetParent (ID t) (ID p)) e), ic\<lparr>store := st1\<rparr>)
           | (None, st1) \<Rightarrow> (Ok (ID t), ic\<lparr>store := st1\<rparr>))) = (r, ic')"
      using Cons.prems unfolding eq .
    show ?thesis
    proof (cases parent)
      case None
      with run have "ic' = ic" by simp
      then show ?thesis by (intro exI[of _ "[]"]) simp
    next
      case (Some p)
      have "snd (store_SetParent (store ic) (ID t) (ID p)) =
              (store ic)\<lparr>state := snd (SetParent (store ic) (state (store ic)) (ID t) (ID p)),
                 calls := calls (store ic) @ [CallSetParent (ID t) (ID p)]\<rparr>"
        by (simp add: store_SetParent_def)
      moreover from run Some
      have "ic' = ic\<lparr>store := snd (store_SetParent (store ic) (ID t) (ID p))\<rparr>"
        by (cases "store_SetParent (store ic) (ID t) (ID p)") (simp split: option.splits)
      ultimately have "sources ic' = sources ic"
        "calls (store ic') = calls (store ic) @ [CallSetParent (ID t) (ID p)]"
        by simp_all
      then show ?thesis by (intro exI[of _ "[CallSetParent (ID t) (ID p)]"]) simp
    qed
  next
    case restore
    note eq = sourcesLoop_restore_eq[OF conjunct1[OF restore(1)] conjunct2[OF restore(1)] restore(3) restore(2),
        of d ic pid rest]
    have run: "(case restoreCachedImage d (store ic) parent t cfg of
        (Ok imgID, st1) \<Rightarrow> (Ok imgID, ic\<lparr>sources := [t], store := st1\<rparr>)
      | (Err e, st1) \<Rightarrow> (Err (Wrapf (FailedToRestore pid (ID t)) e), ic\<lparr>store := st1\<rparr>)
      | (Panic p, st1) \<Rightarrow> (Panic p, ic\<lparr>store := st1\<rparr>)) = (r, ic')"
      using Cons.prems unfolding eq .
    obtain r1 st1 where rc: "restoreCachedImage d (store ic) parent t cfg = (r1, st1)"
      by (cases "restoreCachedImage d (store ic) parent t cfg") auto
    from restoreCachedImage_calls[OF rc] obtain cs where cs: "calls st1 = calls (store ic) @ cs"
      and cr: "(\<exists>x. r1 = Ok x) \<longrightarrow> list_ex isCreateCall cs" by blast
    show ?thesis
    proof (cases r1)
      case (Ok imgID)
      with run rc have "r = Ok imgID" "ic' = ic\<lparr>sources := [t], store := st1\<rparr>"
        by simp_all
      then have res: "r = Ok imgID" "sources ic' = [t]" "store ic' = st1"
        by simp_all
      from cr Ok have cr': "list_ex isCreateCall cs" by simp
      have "\<exists>pre t' post. t # rest = pre @ t' # post \<and> sources ic' = [t'] \<and>
             isValidParent t' parent \<and> isValidConfig cfg (History t' ! n) = Inr True \<and>
             int (length (History t')) - 1 \<noteq> int n \<and>
             (\<forall>u\<in>set pre. \<not> (isValidParent u parent \<and> isValidConfig cfg (History u ! n) = Inr True))"
        using res(2) restore(1,2)
        by (intro exI[of _ "[]"] exI[of _ t] exI[of _ rest]) simp
      then show ?thesis using cs cr' res by (intro exI[of _ cs]) simp
    next
      case (Err e)
      with run rc have "\<forall>x. r \<noteq> Ok x" "ic' = ic\<lparr>store := st1\<rparr>"
        by auto
      then have "\<forall>x. r \<noteq> Ok x" "sources ic' = sources ic" "store ic' = st1"
        by simp_all
      then show ?thesis using cs by (intro exI[of _ cs]) simp
    next
      case (Panic p)
      with run rc have "\<forall>x. r \<noteq> Ok x" "ic' = ic\<lparr>store := st1\<rparr>"
        by auto
      then have "\<forall>x. r \<noteq> Ok x" "sources ic' = sources ic" "store ic' = st1"
        by simp_all
      then show ?thesis using cs by (intro exI[of _ cs]) simp
    qed
  qed
qed

lemma GetCache_cases:
  assumes run: "ImageCache_GetCache d ic parentID cfg platform = Some (r, ic')"
  shows "(\<exists>st'. extendsCalls isLookupCall (store ic) st' \<and> ic' = ic\<lparr>store := st'\<rparr>) \<or>
         (\<exists>st0. extendsCalls isLookupCall (store ic) st0 \<and>
            sourcesLoop d (ic\<lparr>store := st0\<rparr>) parentID (GetCache_parent ic parentID)
              (GetCache_lenHistory (GetCache_parent ic parentID)) cfg (sources ic) = (r, ic'))"
proof -
  obtain r0 st1 where local: "LocalImageCache_GetCache d (store ic) parentID cfg platform = (r0, st1)"
    by (cases "LocalImageCache_GetCache d (store ic) parentID cfg platform") auto
  from LocalImageCache_GetCache_frame[of "store ic" d parentID cfg platform] local
  have e1: "extendsCalls isLookupCall (store ic) st1" by simp
  show ?thesis
  proof (cases r0)
    case (Err e)
    with run local have "ic' = ic\<lparr>store := st1\<rparr>" by (simp add: ImageCache_GetCache_def)
    with e1 show ?thesis by blast
  next
    case (Panic p)
    with run local have "ic' = ic\<lparr>store := st1\<rparr>" by (simp add: ImageCache_GetCache_def)
    with e1 show ?thesis by blast
  next
    case (Ok imgID)
    note local' = local[unfolded Ok]
    show ?thesis
    proof (cases "imgID \<noteq> '''' \<and> (\<exists>st2. verifyLoop st1 (sources ic) imgID = Some (True, st2))")
      case True
      then obtain st2 where hit: "imgID \<noteq> ''''" and v: "verifyLoop st1 (sources ic) imgID = Some (True, st2)"
        by blast
      from verifyLoop_frame[OF v] have "extendsCalls isLookupCall st1 st2"
        by (rule extendsCalls_weaken) (rule getParent_is_lookup)
      from extendsCalls_trans[OF e1 this] have e2: "extendsCalls isLookupCall (store ic) st2" .
      from run have "ic' = ic\<lparr>store := st2\<rparr>"
        unfolding ImageCache_GetCache_def local' using hit v by simp
      with e2 show ?thesis by blast
    next
      case False
      have unverified: "imgID = '''' \<or> (\<exists>st2. verifyLoop st1 (sources ic) imgID = Some (False, st2))"
      proof (cases "imgID = ''''")
        case True
        then show ?thesis by simp
      next
        case ne: False
        from run have "verifyLoop st1 (sources ic) imgID \<noteq> None"
          unfolding ImageCache_GetCache_def local' using ne by (auto split: option.splits)
        then obtain b st2 where "verifyLoop st1 (sources ic) imgID = Some (b, st2)" by auto
        with False ne show ?thesis by (cases b) auto
      qed
      from GetCache_fallthrough[OF local' unverified] obtain st2 where
        e2: "extendsCalls isLookupCall (store ic) st2"
        and eq: "ImageCache_GetCache d ic parentID cfg platform =
       (if parentID \<noteq> ''''
        then (case Get (store ic) (state (store ic)) parentID of
                Inl e \<Rightarrow> Some (Err (Wrapf (UnableToFindImage parentID) e),
                               ic\<lparr>store := st2\<lparr>calls := calls st2 @ [CallGet parentID]\<rparr>\<rparr>)
              | Inr parent \<Rightarrow>
                  Some (sourcesLoop d (ic\<lparr>store := st2\<lparr>calls := calls st2 @ [CallGet parentID]\<rparr>\<rparr>)
                          parentID (Some parent) (length (History parent)) cfg (sources ic)))
        else Some (sourcesLoop d (ic\<lparr>store := st2\<rparr>) parentID None 0 cfg (sources ic)))"
        by blast
      have e23: "extendsCalls isLookupCall st2 (st2\<lparr>calls := calls st2 @ [CallGet parentID]\<rparr>)"
        by (rule extendsCalls_append) simp
      from extendsCalls_trans[OF e2 e23]
      have e3: "extendsCalls isLookupCall (store ic) (st2\<lparr>calls := calls st2 @ [CallGet parentID]\<rparr>)" .
      show ?thesis
      proof (cases "parentID = ''''")
        case True
        with eq run have "sourcesLoop d (ic\<lparr>store := st2\<rparr>) parentID None 0 cfg (sources ic) = (r, ic')"
          by simp
        with True e2 show ?thesis
          by (auto simp: GetCache_parent_def GetCache_lenHistory_def)
      next
        case pid: False
        show ?thesis
        proof (cases "Get (store ic) (state (store ic)) parentID")
          case (Inl e)
          with eq run pid have "ic' = ic\<lparr>store := st2\<lparr>calls := calls st2 @ [CallGet parentID]\<rparr>\<rparr>"
            by simp
          with e3 show ?thesis by blast
        next
          case (Inr parent)
          with eq run pid have "sourcesLoop d (ic\<lparr>store := st2\<lparr>calls := calls st2 @ [CallGet parentID]\<rparr>\<rparr>)
                          parentID (Some parent) (length (History parent)) cfg (sources ic) = (r, ic')"
            by simp
          with pid Inr e3 show ?thesis
            by (auto simp: GetCache_parent_def GetCache_lenHistory_def)
        qed
      qed
    qed
  qed
qed

lemma GetCache_shape:
  assumes run: "ImageCache_GetCache d ic parentID cfg platform = Some (r, ic')"
  shows "\<exists>cs. calls (store ic') = calls (store ic) @ cs \<and>
     (if (\<exists>x. r = Ok x) \<and> list_ex isCreateCall cs
      then \<exists>pre t post. sources ic = pre @ t # post \<and> sources ic' = [t] \<and>
             isValidParent t (GetCache_parent ic parentID) \<and>
             isValidConfig cfg (History t ! GetCache_lenHistory (GetCache_parent ic parentID)) = Inr True \<and>
             int (length (History t)) - 1 \<noteq> int (GetCache_lenHistory (GetCache_parent ic parentID)) \<and>
             (\<forall>u\<in>set pre. \<not> (isValidParent u (GetCache_parent ic parentID) \<and>
                isValidConfig cfg (History u ! GetCache_lenHistory (GetCache_parent ic parentID)) = Inr True))
      else sources ic' = sources ic)"
  using GetCache_cases[OF run]
proof (elim disjE exE conjE)
  fix st'
  assume e: "extendsCalls isLookupCall (store ic) st'" and ic': "ic' = ic\<lparr>store := st'\<rparr>"
  from e obtain cs where cs: "st' = (store ic)\<lparr>calls := calls (store ic) @ cs\<rparr>" "list_all isLookupCall cs"
    unfolding extendsCalls_def by blast
  from lookup_not_create[OF cs(2)] have f: "((\<exists>x. r = Ok x) \<and> list_ex isCreateCall cs) = False" by simp
  have "calls (store ic') = calls (store ic) @ cs" "sources ic' = sources ic"
    using ic' cs(1) by simp_all
  then show ?thesis
    by (intro exI[of _ cs]) (simp only: f if_False simp_thms)
next
  fix st0
  assume e: "extendsCalls isLookupCall (store ic) st0"
    and sl: "sourcesLoop d (ic\<lparr>store := st0\<rparr>) parentID (GetCache_parent ic parentID)
              (GetCache_lenHistory (GetCache_parent ic parentID)) cfg (sources ic) = (r, ic')"
  from e obtain cs0 where cs0: "st0 = (store ic)\<lparr>calls := calls (store ic) @ cs0\<rparr>" "list_all isLookupCall cs0"
    unfolding extendsCalls_def by blast
  from sourcesLoop_sources[OF sl] obtain cs where
    cs: "calls (store ic') = calls (store (ic\<lparr>store := st0\<rparr>)) @ cs"
    and alt: "(if (\<exists>x. r = Ok x) \<and> list_ex isCreateCall cs
      then \<exists>pre t post. sources ic = pre @ t # post \<and> sources ic' = [t] \<and>
             isValidParent t (GetCache_parent ic parentID) \<and>
             isValidConfig cfg (History t ! GetCache_lenHistory (GetCache_parent ic parentID)) = Inr True \<and>
             int (length (History t)) - 1 \<noteq> int (GetCache_lenHistory (GetCache_parent ic parentID)) \<and>
             (\<forall>u\<in>set pre. \<not> (isValidParent u (GetCache_parent ic parentID) \<and>
                isValidConfig cfg (History u ! GetCache_lenHistory (GetCache_parent ic parentID)) = Inr True))
      else sources (ic') = sources (ic\<lparr>store := st0\<rparr>))"
    by blast
  have c: "calls (store ic') = calls (store ic) @ (cs0 @ cs)"
    using cs cs0(1) by simp
  have l: "list_ex isCreateCall (cs0 @ cs) = list_ex isCreateCall cs"
    using lookup_not_create[OF cs0(2)] by (auto simp: list_ex_iff)
  have s0: "sources (ic\<lparr>store := st0\<rparr>) = sources ic" by simp
  show ?thesis
    by (rule exI[of _ "cs0 @ cs"], unfold l, rule conjI[OF c alt[unfolded s0]])
qed

text \<open>
  C9. Whenever \<^verbatim>\<open>GetCache\<close> returns: the source list is left as it was or becomes a
  single one of its elements, so it never grows, and a list narrowed to one source stays
  that list in every later call; when the call returned an identity and the store's
  \<^verbatim>\<open>Create\<close> was called during it (a successful mid-history restoration), the list is
  exactly the matched source, the first source that is a valid extension of the parent
  with a matching entry, which is not its last; in every other case (a final-step
  match, a miss, a local hit, an error) the list is unchanged. \<^verbatim>\<open>Populate\<close> appends one
  image.
\<close>

theorem ImageCache_GetCache_sources:
  assumes run: "ImageCache_GetCache d ic parentID cfg platform = Some (r, ic')"
  shows "(sources ic' = sources ic \<or> (\<exists>t\<in>set (sources ic). sources ic' = [t])) \<and>
         (\<forall>t. sources ic = [t] \<longrightarrow> sources ic' = [t]) \<and>
         ((\<exists>imgID. r = Ok imgID) \<and>
          list_ex isCreateCall (drop (length (calls (store ic))) (calls (store ic'))) \<longrightarrow>
            (\<exists>pre t post. sources ic = pre @ t # post \<and> sources ic' = [t] \<and>
               isValidParent t (GetCache_parent ic parentID) \<and>
               isValidConfig cfg (History t ! GetCache_lenHistory (GetCache_parent ic parentID)) = Inr True \<and>
               int (length (History t)) - 1 \<noteq> int (GetCache_lenHistory (GetCache_parent ic parentID)) \<and>
               (\<forall>u\<in>set pre. \<not> (isValidParent u (GetCache_parent ic parentID) \<and>
                  isValidConfig cfg (History u ! GetCache_lenHistory (GetCache_parent ic parentID)) = Inr True)))) \<and>
         (\<not> ((\<exists>imgID. r = Ok imgID) \<and>
             list_ex isCreateCall (drop (length (calls (store ic))) (calls (store ic')))) \<longrightarrow>
            sources ic' = sources ic) \<and>
         sources (Populate ic' img) = sources ic' @ [img]"
proof -
  from GetCache_shape[OF run] obtain cs where
    cs: "calls (store ic') = calls (store ic) @ cs"
    and alt: "(if (\<exists>x. r = Ok x) \<and> list_ex isCreateCall cs
      then \<exists>pre t post. sources ic = pre @ t # post \<and> sources ic' = [t] \<and>
             isValidParent t (GetCache_parent ic parentID) \<and>
             isValidConfig cfg (History t ! GetCache_lenHistory (GetCache_parent ic parentID)) = Inr True \<and>
             int (length (History t)) - 1 \<noteq> int (GetCache_lenHistory (GetCache_parent ic parentID)) \<and>
             (\<forall>u\<in>set pre. \<not> (isValidParent u (GetCache_parent ic parentID) \<and>
                isValidConfig cfg (History u ! GetCache_lenHistory (GetCache_parent ic parentID)) = Inr True))
      else sources ic' = sources ic)"
    by blast
  have d: "drop (length (calls (store ic))) (calls (store ic')) = cs"
    using cs by simp
  have narrowed: "sources ic' = sources ic \<or> (\<exists>t\<in>set (sources ic). sources ic' = [t])"
  proof (cases "(\<exists>x. r = Ok x) \<and> list_ex isCreateCall cs")
    case True
    with alt obtain pre t post where "sources ic = pre @ t # post" "sources ic' = [t]"
      by auto
    then show ?thesis by auto
  next
    case False
    with alt show ?thesis by simp
  qed
  have single: "\<forall>t. sources ic = [t] \<longrightarrow> sources ic' = [t]"
    using narrowed by auto
  have pos: "(\<exists>imgID. r = Ok imgID) \<and> list_ex isCreateCall cs \<longrightarrow>
            (\<exists>pre t post. sources ic = pre @ t # post \<and> sources ic' = [t] \<and>
               isValidParent t (GetCache_parent ic parentID) \<and>
               isValidConfig cfg (History t ! GetCache_lenHistory (GetCache_parent ic parentID)) = Inr True \<and>
               int (length (History t)) - 1 \<noteq> int (GetCache_lenHistory (GetCache_parent ic parentID)) \<and>
               (\<forall>u\<in>set pre. \<not> (isValidParent u (GetCache_parent ic parentID) \<and>
                  isValidConfig cfg (History u ! GetCache_lenHistory (GetCache_parent ic parentID)) = Inr True)))"
  proof
    assume c: "(\<exists>imgID. r = Ok imgID) \<and> list_ex isCreateCall cs"
    from alt show "\<exists>pre t post. sources ic = pre @ t # post \<and> sources ic' = [t] \<and>
               isValidParent t (GetCache_parent ic parentID) \<and>
               isValidConfig cfg (History t ! GetCache_lenHistory (GetCache_parent ic parentID)) = Inr True \<and>
               int (length (History t)) - 1 \<noteq> int (GetCache_lenHistory (GetCache_parent ic parentID)) \<and>
               (\<forall>u\<in>set pre. \<not> (isValidParent u (GetCache_parent ic parentID) \<and>
                  isValidConfig cfg (History u ! GetCache_lenHistory (GetCache_parent ic parentID)) = Inr True))"
      unfolding if_P[OF c] .
  qed
  have neg: "\<not> ((\<exists>imgID. r = Ok imgID) \<and> list_ex isCreateCall cs) \<longrightarrow> sources ic' = sources ic"
  proof
    assume c: "\<not> ((\<exists>imgID. r = Ok imgID) \<and> list_ex isCreateCall cs)"
    from alt show "sources ic' = sources ic" unfolding if_not_P[OF c] .
  qed
  have pop: "sources (Populate ic' img) = sources ic' @ [img]"
    by (simp add: Populate_def)
  show ?thesis unfolding d by (intro conjI narrowed single pos neg pop)
qed

theorem ImageCache_GetCache_sources_witness:
  "ImageCache_GetCache exDeps \<lparr>sources = [exOther, exSource], store = exLocalStore\<rparr> ''''
       (Some exRootConfig) exPlatform =
     Some (Ok ''new'',
           \<lparr>sources = [exSource],
            store = exLocalStore\<lparr>calls :=
              [CallChildren '''', CallCreate None (exRestored exRootConfig [h0] [''d0'']) ''d0'']\<rparr>\<rparr>)"
proof -
  have e: "ImageCache_GetCache exDeps \<lparr>sources = [exOther, exSource], store = exLocalStore\<rparr> ''''
       (Some exRootConfig) exPlatform =
     Some (Ok ''new'',
           \<lparr>sources = [exSource],
            store = exLocalStore\<lparr>calls :=
              [CallChildren '''', CallCreate None (exRestored exRootConfig [h0] [''d0'']) ''d0'']\<rparr>\<rparr>)"
    by (simp add: ImageCache_GetCache_def LocalImageCache_GetCache_def getLocalCachedImage_def
      getImageIDAndError_def store_Children_def isValidParent_def isValidConfig_def
      restoreCachedImage_def Let_def store_Create_def getLayerForHistoryIndex_def
      exSource_def exOther_def exRestored_def exLocalStore_def exDeps_def exRootConfig_def
      Append_def NewRootFS_def h0_def h1_def h2_def)
  from ImageCache_GetCache_sources[OF e] e show ?thesis by simp
qed

end
